theory Spec2Isabelle
  imports Main
begin

section \<open>The pattern engine: the fragment of Python's \<open>re\<close> the scraper uses\<close>

text \<open>
  A \<open>char\<close> stands for one character of a Python \<open>str\<close>. The two patterns of the class
  use literal characters, the dot, character sets and ranges, the quantifiers \<open>?\<close>,
  \<open>*\<close>, \<open>+\<close> on a single character, and unnested groups. \<open>re.match\<close> anchors the
  pattern at the start of the string and accepts any rest; quantifiers are greedy and
  back off one character at a time.
\<close>

datatype atom = Chr char | Dot | OneOf "char list" | Range char char

datatype item = One atom | Opt atom | Star atom | Plus atom | GOpen nat | GClose nat

fun atom_ok :: "atom \<Rightarrow> char \<Rightarrow> bool" where
  "atom_ok (Chr d) c = (c = d)"
| "atom_ok Dot c = (c \<noteq> CHR 0x0A)"
| "atom_ok (OneOf ds) c = (c \<in> set ds)"
| "atom_ok (Range lo hi) c = ((of_char lo :: nat) \<le> of_char c \<and> (of_char c :: nat) \<le> of_char hi)"

text \<open>
  The matcher state is the position reached, the start positions of the groups opened so
  far and the spans of the groups closed so far. The result is the end of the match and
  the spans, or \<open>None\<close> when every alternative fails.
\<close>

type_synonym spans = "(nat \<times> nat \<times> nat) list"

fun rmatch :: "item list \<Rightarrow> string \<Rightarrow> nat \<Rightarrow> (nat \<times> nat) list \<Rightarrow> spans \<Rightarrow> (nat \<times> spans) option" where
  "rmatch [] s pos opn sp = Some (pos, sp)"
| "rmatch (One a # r) [] pos opn sp = None"
| "rmatch (One a # r) (c # cs) pos opn sp =
     (if atom_ok a c then rmatch r cs (Suc pos) opn sp else None)"
| "rmatch (Opt a # r) [] pos opn sp = rmatch r [] pos opn sp"
| "rmatch (Opt a # r) (c # cs) pos opn sp =
     (if atom_ok a c
      then (case rmatch r cs (Suc pos) opn sp of
              Some m \<Rightarrow> Some m
            | None \<Rightarrow> rmatch r (c # cs) pos opn sp)
      else rmatch r (c # cs) pos opn sp)"
| "rmatch (Star a # r) [] pos opn sp = rmatch r [] pos opn sp"
| "rmatch (Star a # r) (c # cs) pos opn sp =
     (if atom_ok a c
      then (case rmatch (Star a # r) cs (Suc pos) opn sp of
              Some m \<Rightarrow> Some m
            | None \<Rightarrow> rmatch r (c # cs) pos opn sp)
      else rmatch r (c # cs) pos opn sp)"
| "rmatch (Plus a # r) [] pos opn sp = None"
| "rmatch (Plus a # r) (c # cs) pos opn sp =
     (if atom_ok a c then rmatch (Star a # r) cs (Suc pos) opn sp else None)"
| "rmatch (GOpen k # r) s pos opn sp = rmatch r s pos ((k, pos) # opn) sp"
| "rmatch (GClose k # r) s pos opn sp =
     (case map_of opn k of
        None \<Rightarrow> rmatch r s pos opn sp
      | Some b \<Rightarrow> rmatch r s pos opn ((k, b, pos) # sp))"

text \<open>A match object: the subject string and the spans of its groups.\<close>

record match_obj =
  subject :: string
  group_spans :: spans

definition re_match :: "item list \<Rightarrow> string \<Rightarrow> match_obj option" where
  "re_match p s =
     (case rmatch p s 0 [] [] of
        None \<Rightarrow> None
      | Some (e, sp) \<Rightarrow> Some \<lparr>subject = s, group_spans = sp\<rparr>)"

definition group :: "match_obj \<Rightarrow> nat \<Rightarrow> string" where
  "group m k =
     (case map_of (group_spans m) k of
        None \<Rightarrow> []
      | Some (b, e) \<Rightarrow> take (e - b) (drop b (subject m)))"

definition lits :: "string \<Rightarrow> item list" where
  "lits l = map (\<lambda>c. One (Chr c)) l"

text \<open>\<^verbatim>\<open>ep_url_pattern = r'https?://seenunseen.in/episodes/([0-9]+)/([0-9]+)/([0-9]+)/episode-([0-9]+)-.+'\<close>\<close>

definition ep_url_pattern :: "item list" where
  "ep_url_pattern =
     lits ''http'' @ [Opt (Chr CHR ''s'')] @ lits ''://seenunseen'' @ [One Dot] @
     lits ''in/episodes/'' @
     [GOpen 1, Plus (Range CHR ''0'' CHR ''9''), GClose 1] @ lits ''/'' @
     [GOpen 2, Plus (Range CHR ''0'' CHR ''9''), GClose 2] @ lits ''/'' @
     [GOpen 3, Plus (Range CHR ''0'' CHR ''9''), GClose 3] @ lits ''/episode-'' @
     [GOpen 4, Plus (Range CHR ''0'' CHR ''9''), GClose 4] @ lits ''-'' @
     [Plus Dot]"

text \<open>\<^verbatim>\<open>target_url_pattern = r'https?://[w.]*amazon.[a-z]+'\<close>\<close>

definition target_url_pattern :: "item list" where
  "target_url_pattern =
     lits ''http'' @ [Opt (Chr CHR ''s'')] @ lits ''://'' @ [Star (OneOf ''w.'')] @
     lits ''amazon'' @ [One Dot, Plus (Range CHR ''a'' CHR ''z'')]"


section \<open>Errors and library calls\<close>

text \<open>
  The exceptions that can leave the scraper. A function that may raise returns a sum, with
  \<open>Inl\<close> for the exception.
\<close>

datatype py_error =
  AttributeError | KeyError | IndexError | TypeError | ValueError | OverflowError | OSError

definition digit_char :: "char \<Rightarrow> bool" where
  "digit_char c = ((48::nat) \<le> of_char c \<and> (of_char c :: nat) \<le> 57)"

definition lower_char :: "char \<Rightarrow> bool" where
  "lower_char c = ((97::nat) \<le> of_char c \<and> (of_char c :: nat) \<le> 122)"

definition digits_val :: "string \<Rightarrow> int" where
  "digits_val s = foldl (\<lambda>v c. 10 * v + (of_char c - 48)) 0 s"

text \<open>
  \<open>int(s)\<close> on a string of decimal digits, the only strings the scraper passes to it (each
  is a group matched by \<^verbatim>\<open>[0-9]+\<close>). The interpreter refuses a string of more than 4300
  digits, leading zeros counted, with \<open>ValueError\<close>. Signs, blanks and underscores, which
  \<open>int\<close> also reads, are outside this model and are answered with \<open>ValueError\<close>.
\<close>

definition int_max_str_digits :: nat where
  "int_max_str_digits = 4300"

definition py_int :: "string \<Rightarrow> py_error + int" where
  "py_int s =
     (if s \<noteq> [] \<and> list_all digit_char s
      then (if int_max_str_digits < length s then Inl ValueError else Inr (digits_val s))
      else Inl ValueError)"

record datetime =
  year :: int
  month :: int
  day :: int

definition is_leap :: "int \<Rightarrow> bool" where
  "is_leap y = (y mod 4 = 0 \<and> (y mod 100 \<noteq> 0 \<or> y mod 400 = 0))"

definition days_in_month :: "int \<Rightarrow> int \<Rightarrow> int" where
  "days_in_month y m =
     (if m = 2 then (if is_leap y then 29 else 28)
      else if m = 4 \<or> m = 6 \<or> m = 9 \<or> m = 11 then 30 else 31)"

definition valid_date :: "int \<Rightarrow> int \<Rightarrow> int \<Rightarrow> bool" where
  "valid_date y m d = (1 \<le> y \<and> y \<le> 9999 \<and> 1 \<le> m \<and> m \<le> 12 \<and> 1 \<le> d \<and> d \<le> days_in_month y m)"

definition c_int_ok :: "int \<Rightarrow> bool" where
  "c_int_ok n = (- 2147483648 \<le> n \<and> n \<le> 2147483647)"

text \<open>
  \<open>datetime.datetime(year, month, day)\<close>: the arguments are read as C ints
  (\<open>OverflowError\<close> beyond them), then checked against the calendar (\<open>ValueError\<close>).
\<close>

definition py_datetime :: "int \<Rightarrow> int \<Rightarrow> int \<Rightarrow> py_error + datetime" where
  "py_datetime y m d =
     (if \<not> (c_int_ok y \<and> c_int_ok m \<and> c_int_ok d) then Inl OverflowError
      else if valid_date y m d then Inr \<lparr>year = y, month = m, day = d\<rparr>
      else Inl ValueError)"

section \<open>Classifier and extractor\<close>

definition is_episode_url :: "string \<Rightarrow> bool" where
  "is_episode_url url = (case re_match ep_url_pattern url of None \<Rightarrow> False | Some m \<Rightarrow> True)"

definition is_target_url :: "string \<Rightarrow> bool" where
  "is_target_url url = (case re_match target_url_pattern url of None \<Rightarrow> False | Some m \<Rightarrow> True)"

definition get_episode_info :: "string \<Rightarrow> py_error + (int \<times> datetime) option" where
  "get_episode_info ep_url =
     (case re_match ep_url_pattern ep_url of
        None \<Rightarrow> Inr None
      | Some result \<Rightarrow>
          (case py_int (group result 1) of Inl e \<Rightarrow> Inl e | Inr y \<Rightarrow>
           case py_int (group result 2) of Inl e \<Rightarrow> Inl e | Inr m \<Rightarrow>
           case py_int (group result 3) of Inl e \<Rightarrow> Inl e | Inr d \<Rightarrow>
           case py_datetime y m d of Inl e \<Rightarrow> Inl e | Inr ep_date \<Rightarrow>
           case py_int (group result 4) of Inl e \<Rightarrow> Inl e | Inr ep_num \<Rightarrow>
             Inr (Some (ep_num, ep_date))))"

section \<open>Pages, the outside world and the scraper object\<close>

text \<open>
  A parsed page is what \<open>findAll('a')\<close> returns: its anchors in document order, each
  with its attribute dictionary and its children (rendered as text).
\<close>

record anchor =
  attrs :: "(string \<times> string) list"
  contents :: "string list"

type_synonym page = "anchor list"

datatype fetch_outcome = RequestException string | Response nat page

datatype io_event =
    FileOpened string
  | FileWrote string string
  | FileClosed string
  | HttpGet string
  | Slept int

text \<open>
  The world: what \<open>requests.get\<close> answers for each URL (an exception of the transport, or
  a response with its status code and parsed body), the rank that fixes the order in which
  a Python set of strings is iterated, the formatted wall-clock time after a given number
  of input/output events, which delays the operating system accepts for a sleep, and the
  events so far. One answer per URL is enough: within an invocation the episode URLs come
  out of a set, and the index URL of a constructed scraper is no episode URL, so no URL is
  requested twice. Writes to the open log go to its buffer and are taken to succeed.
\<close>

record world =
  web :: "string \<Rightarrow> fetch_outcome"
  set_rank :: "string \<Rightarrow> nat"
  clock :: "nat \<Rightarrow> string"
  sleep_ok :: "int \<Rightarrow> bool"
  trace :: "io_event list"

record scraper =
  base_url_year :: string
  req_delay_second :: "int option"
  log_filepath :: "string option"
  log_file :: "string option"

definition base_url :: string where
  "base_url = ''https://seenunseen.in/episodes/''"

function str_nat :: "nat \<Rightarrow> string" where
  "str_nat n = (if n < 10 then [char_of (48 + n)] else str_nat (n div 10) @ [char_of (48 + n mod 10)])"
  by pat_completeness auto
termination
  by (relation "measure (\<lambda>n. n)") auto

definition py_str :: "int \<Rightarrow> string" where
  "py_str i = (if i < 0 then CHR ''-'' # str_nat (nat (- i)) else str_nat (nat i))"

definition init :: "int \<Rightarrow> int option \<Rightarrow> string option \<Rightarrow> scraper" where
  "init yr req_delay_seconds path =
     \<lparr>base_url_year = base_url @ py_str yr @ ''/'',
      req_delay_second = req_delay_seconds,
      log_filepath = path,
      log_file = None\<rparr>"

section \<open>Logger and fetcher\<close>

definition log_line :: "string \<Rightarrow> string \<Rightarrow> string" where
  "log_line timestamp_str msg = ''[ '' @ timestamp_str @ '' ] : '' @ msg @ [CHR 0x0A]"

definition emit :: "io_event \<Rightarrow> world \<Rightarrow> world" where
  "emit e w = w\<lparr>trace := trace w @ [e]\<rparr>"

definition write_log :: "scraper \<Rightarrow> world \<Rightarrow> string \<Rightarrow> world" where
  "write_log self w msg =
     (case log_file self of
        None \<Rightarrow> w
      | Some h \<Rightarrow> emit (FileWrote h (log_line (clock w (length (trace w))) msg)) w)"

text \<open>The failure message is a plain string literal in the source, braces included.\<close>

definition get_page_soup :: "scraper \<Rightarrow> world \<Rightarrow> string \<Rightarrow> page option \<times> world" where
  "get_page_soup self w url =
     (case web w url of
        RequestException exp \<Rightarrow>
          (None, write_log self (emit (HttpGet url) w) ''Failed getting URL : {url} ; Error : {exp}'')
      | Response status body \<Rightarrow> (Some body, emit (HttpGet url) w))"

section \<open>The orchestrator\<close>

type_synonym table = "(int \<times> string) list"

text \<open>\<^verbatim>\<open>[a['href'] for a in base_page.findAll('a') if self.__is_episode_url(a['href'])]\<close>\<close>

fun episode_hrefs :: "page \<Rightarrow> py_error + string list" where
  "episode_hrefs [] = Inr []"
| "episode_hrefs (a # as) =
     (case map_of (attrs a) ''href'' of
        None \<Rightarrow> Inl KeyError
      | Some h \<Rightarrow>
          if is_episode_url h
          then (case episode_hrefs as of Inl e \<Rightarrow> Inl e | Inr hs \<Rightarrow> Inr (h # hs))
          else episode_hrefs as)"

text \<open>\<^verbatim>\<open>[a.contents[0] for a in ep_page.findAll('a') if self.__is_target_url(a['href'])]\<close>\<close>

fun amazon_books :: "page \<Rightarrow> py_error + string list" where
  "amazon_books [] = Inr []"
| "amazon_books (a # as) =
     (case map_of (attrs a) ''href'' of
        None \<Rightarrow> Inl KeyError
      | Some h \<Rightarrow>
          if is_target_url h
          then (case contents a of
                  [] \<Rightarrow> Inl IndexError
                | b # bs \<Rightarrow> (case amazon_books as of Inl e \<Rightarrow> Inl e | Inr rest \<Rightarrow> Inr (b # rest)))
          else amazon_books as)"

text \<open>
  Iterating \<open>set(hrefs)\<close>: every distinct string once, in an order the program does not
  control; here the order of the world's rank.
\<close>

definition set_iter :: "(string \<Rightarrow> nat) \<Rightarrow> string list \<Rightarrow> string list" where
  "set_iter rank hs = sort_key rank (remdups hs)"

text \<open>
  \<open>if self.req_delay_second: time.sleep(self.req_delay_second)\<close>, the delay being a whole
  number of seconds as the constructor documents it. \<open>time.sleep\<close> first converts the
  delay to nanoseconds in 64 bits (\<open>OverflowError\<close> beyond them), then refuses a negative
  delay (\<open>ValueError\<close>), then asks the operating system, which may refuse (\<open>OSError\<close>).
\<close>

definition pace :: "scraper \<Rightarrow> world \<Rightarrow> py_error + world" where
  "pace self w =
     (case req_delay_second self of
        None \<Rightarrow> Inr w
      | Some d \<Rightarrow>
          if d = 0 then Inr w
          else if d < - 9223372036 \<or> 9223372036 < d then Inl OverflowError
          else if d < 0 then Inl ValueError
          else if \<not> sleep_ok w d then Inl OSError
          else Inr (emit (Slept d) w))"

text \<open>
  One turn of the loop over the episode URLs: \<open>Inr None\<close> is \<open>continue\<close>, \<open>Inr (Some rows)\<close>
  is the frame appended to \<open>df_list\<close>. The column \<open>Episode\<close> is a series of 64-bit
  integers: an episode number beyond them raises \<open>OverflowError\<close>.
\<close>

definition scrape_episode :: "scraper \<Rightarrow> string \<Rightarrow> world \<Rightarrow> (py_error + table option) \<times> world" where
  "scrape_episode self ep_url w =
     (case pace self w of
        Inl e \<Rightarrow> (Inl e, w)
      | Inr w1 \<Rightarrow>
          (case get_page_soup self w1 ep_url of
             (None, w2) \<Rightarrow> (Inr None, w2)
           | (Some ep_page, w2) \<Rightarrow>
               (let w3 = write_log self w2 (''Episode fetched : '' @ ep_url) in
                case amazon_books ep_page of
                  Inl e \<Rightarrow> (Inl e, w3)
                | Inr [] \<Rightarrow> (Inr None, w3)
                | Inr (b # bs) \<Rightarrow>
                    (case get_episode_info ep_url of
                       Inl e \<Rightarrow> (Inl e, w3)
                     | Inr None \<Rightarrow> (Inl TypeError, w3)
                     | Inr (Some (ep_num, ep_date)) \<Rightarrow>
                         if 9223372036854775807 < ep_num then (Inl OverflowError, w3)
                         else (Inr (Some (map (\<lambda>t. (ep_num, t)) (b # bs))), w3)))))"

fun episodes_loop :: "scraper \<Rightarrow> string list \<Rightarrow> table list \<Rightarrow> world \<Rightarrow> (py_error + table list) \<times> world" where
  "episodes_loop self [] df_list w = (Inr df_list, w)"
| "episodes_loop self (ep_url # rest) df_list w =
     (case scrape_episode self ep_url w of
        (Inl e, w') \<Rightarrow> (Inl e, w')
      | (Inr None, w') \<Rightarrow> episodes_loop self rest df_list w'
      | (Inr (Some df_ep_books), w') \<Rightarrow> episodes_loop self rest (df_list @ [df_ep_books]) w')"

definition get_books_as_dataframe :: "scraper \<Rightarrow> world \<Rightarrow> (py_error + table option) \<times> world" where
  "get_books_as_dataframe self w =
     (case get_page_soup self w (base_url_year self) of
        (base_page, w1) \<Rightarrow>
          (let w2 = write_log self w1 ''Base page fetched'' in
           case base_page of
             None \<Rightarrow> (Inl AttributeError, w2)
           | Some pg \<Rightarrow>
               (case episode_hrefs pg of
                  Inl e \<Rightarrow> (Inl e, w2)
                | Inr hs \<Rightarrow>
                    (case episodes_loop self (set_iter (set_rank w2) hs) [] w2 of
                       (Inl e, w3) \<Rightarrow> (Inl e, w3)
                     | (Inr df_list, w3) \<Rightarrow>
                         if df_list = [] then (Inr None, w3)
                         else (Inr (Some (concat df_list)), w3)))))"

text \<open>
  \<open>get_books\<close> where opening and closing the log succeed: open the log when a path is
  configured (an empty path counts as none), run the scrape, and in the \<open>finally\<close> clause
  close the handle and clear the field. The result, the scraper object and the world are
  returned on every path. \<open>open_log\<close> and \<open>close_log\<close> are the two file operations when
  they succeed; \<open>get_books_fs\<close> below adds their failures.
\<close>

definition open_log :: "scraper \<Rightarrow> world \<Rightarrow> scraper \<times> world" where
  "open_log self w =
     (case log_filepath self of
        None \<Rightarrow> (self\<lparr>log_file := None\<rparr>, w)
      | Some p \<Rightarrow>
          if p = [] then (self\<lparr>log_file := None\<rparr>, w)
          else (self\<lparr>log_file := Some p\<rparr>, emit (FileOpened p) w))"

definition close_log :: "scraper \<Rightarrow> world \<Rightarrow> scraper \<times> world" where
  "close_log self w =
     (case log_file self of
        None \<Rightarrow> (self, w)
      | Some h \<Rightarrow> (self\<lparr>log_file := None\<rparr>, emit (FileClosed h) w))"

definition get_books :: "scraper \<Rightarrow> world \<Rightarrow> (py_error + table option) \<times> scraper \<times> world" where
  "get_books self w =
     (case open_log self w of
        (self1, w1) \<Rightarrow>
          (case get_books_as_dataframe self1 w1 of
             (result, w2) \<Rightarrow>
               (case close_log self1 w2 of
                  (self2, w3) \<Rightarrow> (result, self2, w3))))"

text \<open>
  \<open>get_books\<close> on any file system. \<open>open\<close> is called before the \<open>try\<close>: when the path
  cannot be opened for appending its \<open>OSError\<close> leaves the method at once, with nothing
  opened and the handle field as it was. \<open>close\<close> is called in the \<open>finally\<close> clause: when
  it raises (the buffer cannot be flushed), the file is closed all the same, the
  \<open>OSError\<close> replaces the outcome of the scrape, and the assignment that clears the handle
  field is not reached.
\<close>

record filesys =
  can_open :: "string \<Rightarrow> bool"
  can_close :: "string \<Rightarrow> bool"

definition py_open :: "filesys \<Rightarrow> scraper \<Rightarrow> world \<Rightarrow> py_error + scraper \<times> world" where
  "py_open fs self w =
     (case log_filepath self of
        None \<Rightarrow> Inr (self\<lparr>log_file := None\<rparr>, w)
      | Some p \<Rightarrow>
          if p = [] then Inr (self\<lparr>log_file := None\<rparr>, w)
          else if can_open fs p then Inr (self\<lparr>log_file := Some p\<rparr>, emit (FileOpened p) w)
          else Inl OSError)"

definition get_books_fs ::
  "filesys \<Rightarrow> scraper \<Rightarrow> world \<Rightarrow> (py_error + table option) \<times> scraper \<times> world" where
  "get_books_fs fs self w =
     (case py_open fs self w of
        Inl e \<Rightarrow> (Inl e, self, w)
      | Inr (self1, w1) \<Rightarrow>
          (case get_books_as_dataframe self1 w1 of
             (result, w2) \<Rightarrow>
               (case log_file self1 of
                  None \<Rightarrow> (result, self1, w2)
                | Some h \<Rightarrow>
                    if can_close fs h
                    then (result, self1\<lparr>log_file := None\<rparr>, emit (FileClosed h) w2)
                    else (Inl OSError, self1, emit (FileClosed h) w2))))"

section \<open>Vocabulary of the properties\<close>

fun is_open_close :: "io_event \<Rightarrow> bool" where
  "is_open_close (FileOpened p) = True"
| "is_open_close (FileClosed p) = True"
| "is_open_close e = False"

text \<open>
  \<open>extends w w'\<close>: the world \<open>w'\<close> is \<open>w\<close> after some more events, none of which opens or
  closes a file; what the outside answers is unchanged.
\<close>

definition extends :: "world \<Rightarrow> world \<Rightarrow> bool" where
  "extends w w' = (web w' = web w \<and> set_rank w' = set_rank w \<and> clock w' = clock w \<and>
     (\<exists>ev. trace w' = trace w @ ev \<and> filter is_open_close ev = []))"

fun starts_with :: "string \<Rightarrow> string \<Rightarrow> bool" where
  "starts_with [] s = True"
| "starts_with (c # cs) [] = False"
| "starts_with (c # cs) (d # ds) = (c = d \<and> starts_with cs ds)"

text \<open>\<open>contains sub s\<close>: Python's \<open>sub in s\<close> on strings.\<close>

fun contains :: "string \<Rightarrow> string \<Rightarrow> bool" where
  "contains sub [] = (sub = [])"
| "contains sub (c # cs) = (starts_with sub (c # cs) \<or> contains sub cs)"

definition href :: "anchor \<Rightarrow> string option" where
  "href a = map_of (attrs a) ''href''"

definition is_episode_anchor :: "anchor \<Rightarrow> bool" where
  "is_episode_anchor a = (case href a of None \<Rightarrow> False | Some h \<Rightarrow> is_episode_url h)"


text \<open>A non-empty string of decimal digits: what a group \<^verbatim>\<open>([0-9]+)\<close> captures.\<close>

definition is_digits :: "string \<Rightarrow> bool" where
  "is_digits s = (s \<noteq> [] \<and> list_all digit_char s)"

text \<open>The episode pattern from its first group on.\<close>

definition ep_tail :: "item list" where
  "ep_tail =
     [GOpen 1, Plus (Range CHR ''0'' CHR ''9''), GClose 1] @ lits ''/'' @
     [GOpen 2, Plus (Range CHR ''0'' CHR ''9''), GClose 2] @ lits ''/'' @
     [GOpen 3, Plus (Range CHR ''0'' CHR ''9''), GClose 3] @ lits ''/episode-'' @
     [GOpen 4, Plus (Range CHR ''0'' CHR ''9''), GClose 4] @ lits ''-'' @
     [Plus Dot]"


text \<open>\<open>no_rows w u\<close>: the episode page at \<open>u\<close> cannot be fetched, or it yields no book.\<close>

definition no_rows :: "world \<Rightarrow> string \<Rightarrow> bool" where
  "no_rows w u =
     (case web w u of
        RequestException exp \<Rightarrow> True
      | Response status ep \<Rightarrow> amazon_books ep = Inr [])"

text \<open>
  A small site for concrete runs: the index of 2021 links two episodes and an unrelated
  page; episode 206 answers with one retailer link and one other link; episode 210 (not
  linked from the index) holds one anchor without \<open>href\<close>; the index of 2020
  links no episode; the index of 2019 holds one anchor without \<open>href\<close>; the index of 2018
  answers with status 404 and an empty body; every other URL fails in the transport.
\<close>

definition index_2021 :: page where
  "index_2021 =
     [\<lparr>attrs = [(''href'', ''https://seenunseen.in/episodes/2021/1/4/episode-206-x/'')], contents = [''206'']\<rparr>,
      \<lparr>attrs = [(''href'', ''https://seenunseen.in/episodes/2021/1/11/episode-207-y/'')], contents = [''207'']\<rparr>,
      \<lparr>attrs = [(''href'', ''https://seenunseen.in/about'')], contents = [''About'']\<rparr>]"

definition episode_206 :: page where
  "episode_206 =
     [\<lparr>attrs = [(''href'', ''https://www.amazon.in/dp/1'')], contents = [''Thinking, Fast and Slow'']\<rparr>,
      \<lparr>attrs = [(''href'', ''https://other.example'')], contents = [''ignored'']\<rparr>]"

definition index_2020 :: page where
  "index_2020 = [\<lparr>attrs = [(''href'', ''https://seenunseen.in/about'')], contents = [''About'']\<rparr>]"

definition index_2019 :: page where
  "index_2019 = [\<lparr>attrs = [(''name'', ''top'')], contents = []\<rparr>]"

definition episode_210 :: page where
  "episode_210 = [\<lparr>attrs = [(''name'', ''top'')], contents = [''Top'']\<rparr>]"

definition site :: "string \<Rightarrow> fetch_outcome" where
  "site u =
     (if u = ''https://seenunseen.in/episodes/2021/'' then Response 200 index_2021
      else if u = ''https://seenunseen.in/episodes/2021/1/4/episode-206-x/'' then Response 200 episode_206
      else if u = ''https://seenunseen.in/episodes/2021/2/1/episode-210-z/'' then Response 200 episode_210
      else if u = ''https://seenunseen.in/episodes/2020/'' then Response 200 index_2020
      else if u = ''https://seenunseen.in/episodes/2019/'' then Response 200 index_2019
      else if u = ''https://seenunseen.in/episodes/2018/'' then Response 404 []
      else RequestException ''connection refused'')"

definition world0 :: world where
  "world0 =
     \<lparr>web = site, set_rank = length, clock = (\<lambda>n. ''2021-06-01 12:00:00''),
      sleep_ok = (\<lambda>d. d \<le> 3600), trace = []\<rparr>"

text \<open>
  A file system in which \<open>/\<close> cannot be opened for appending and closing \<open>/dev/full\<close>
  fails, and two scrapers that log there.
\<close>

definition fs0 :: filesys where
  "fs0 = \<lparr>can_open = (\<lambda>p. p \<noteq> ''/''), can_close = (\<lambda>p. p \<noteq> ''/dev/full'')\<rparr>"

definition scraper_2020_root :: scraper where
  "scraper_2020_root =
     \<lparr>base_url_year = ''https://seenunseen.in/episodes/2020/'', req_delay_second = None,
      log_filepath = Some ''/'', log_file = None\<rparr>"

definition scraper_2020_full :: scraper where
  "scraper_2020_full =
     \<lparr>base_url_year = ''https://seenunseen.in/episodes/2020/'', req_delay_second = None,
      log_filepath = Some ''/dev/full'', log_file = None\<rparr>"

definition scraper_2021 :: scraper where
  "scraper_2021 =
     \<lparr>base_url_year = ''https://seenunseen.in/episodes/2021/'', req_delay_second = Some 2,
      log_filepath = Some ''log.txt'', log_file = None\<rparr>"

definition scraper_2020 :: scraper where
  "scraper_2020 =
     \<lparr>base_url_year = ''https://seenunseen.in/episodes/2020/'', req_delay_second = None,
      log_filepath = Some ''log.txt'', log_file = None\<rparr>"

definition scraper_2020_quiet :: scraper where
  "scraper_2020_quiet =
     \<lparr>base_url_year = ''https://seenunseen.in/episodes/2020/'', req_delay_second = None,
      log_filepath = None, log_file = None\<rparr>"

definition scraper_2019 :: scraper where
  "scraper_2019 =
     \<lparr>base_url_year = ''https://seenunseen.in/episodes/2019/'', req_delay_second = None,
      log_filepath = Some ''log.txt'', log_file = None\<rparr>"

definition scraper_2022 :: scraper where
  "scraper_2022 =
     \<lparr>base_url_year = ''https://seenunseen.in/episodes/2022/'', req_delay_second = None,
      log_filepath = Some ''log.txt'', log_file = None\<rparr>"

section \<open>Properties\<close>

subsection \<open>Events and the log\<close>

lemma extends_refl: "extends w w"
  by (simp add: extends_def)

lemma extends_trans: "extends w w1 \<Longrightarrow> extends w1 w2 \<Longrightarrow> extends w w2"
  by (auto simp: extends_def)

lemma emit_fields [simp]:
  "web (emit e w) = web w" "set_rank (emit e w) = set_rank w" "clock (emit e w) = clock w"
  "sleep_ok (emit e w) = sleep_ok w" "trace (emit e w) = trace w @ [e]"
  by (simp_all add: emit_def)

lemma extends_emit: "\<not> is_open_close e \<Longrightarrow> extends w (emit e w)"
  by (simp add: extends_def)

lemma extends_write_log: "extends w (write_log self w msg)"
  by (simp add: write_log_def extends_refl extends_emit split: option.splits)

lemma extends_get_page_soup: "extends w (snd (get_page_soup self w url))"
  by (auto simp: get_page_soup_def split: fetch_outcome.splits
      intro: extends_trans [OF extends_emit extends_write_log] extends_emit)

lemma extends_pace: "pace self w = Inr w1 \<Longrightarrow> extends w w1"
  by (auto simp: pace_def extends_refl extends_emit split: option.splits if_splits)

lemma extends_scrape_episode: "extends w (snd (scrape_episode self u w))"
proof (cases "pace self w")
  case (Inl e)
  then show ?thesis by (simp add: scrape_episode_def extends_refl)
next
  case (Inr w1)
  obtain pg w2 where g: "get_page_soup self w1 u = (pg, w2)" by (cases "get_page_soup self w1 u")
  have e2: "extends w w2"
    using extends_trans [OF extends_pace [OF Inr] extends_get_page_soup [of w1 self u]] g by simp
  have e3: "extends w (write_log self w2 m)" for m
    using extends_trans [OF e2 extends_write_log] .
  show ?thesis
    using Inr g e2 e3
    by (auto simp: scrape_episode_def Let_def split: option.splits sum.splits list.splits)
qed

lemma extends_episodes_loop: "extends w (snd (episodes_loop self us df w))"
proof (induction us arbitrary: df w)
  case Nil
  then show ?case by (simp add: extends_refl)
next
  case (Cons u us)
  obtain r w' where s: "scrape_episode self u w = (r, w')" by (cases "scrape_episode self u w")
  have e: "extends w w'" using extends_scrape_episode [of w self u] s by simp
  show ?case
    using s e Cons.IH [of w'] 
    by (auto split: sum.splits option.splits intro: extends_trans)
qed


lemma open_log_fields:
  "log_filepath self = Some p \<Longrightarrow> p \<noteq> [] \<Longrightarrow>
     open_log self w = (self\<lparr>log_file := Some p\<rparr>, emit (FileOpened p) w)"
  by (simp add: open_log_def)

lemma get_books_as_dataframe_trace:
  assumes "log_file self = Some h"
  shows "\<exists>post. trace (snd (get_books_as_dataframe self w)) =
           trace w @ HttpGet (base_url_year self) #
             (case web w (base_url_year self) of
                RequestException exp \<Rightarrow>
                  [FileWrote h (log_line (clock w (Suc (length (trace w))))
                     ''Failed getting URL : {url} ; Error : {exp}''),
                   FileWrote h (log_line (clock w (Suc (Suc (length (trace w))))) ''Base page fetched'')]
              | Response st pg \<Rightarrow>
                  [FileWrote h (log_line (clock w (Suc (length (trace w)))) ''Base page fetched'')]) @ post
         \<and> filter is_open_close post = []
         \<and> (\<forall>exp. web w (base_url_year self) = RequestException exp \<longrightarrow>
               post = [] \<and> fst (get_books_as_dataframe self w) = Inl AttributeError)"
proof (cases "web w (base_url_year self)")
  case (RequestException exp)
  then show ?thesis
    using assms by (simp add: get_books_as_dataframe_def get_page_soup_def write_log_def Let_def)
next
  case (Response st pg)
  define w2 where "w2 = write_log self (emit (HttpGet (base_url_year self)) w) ''Base page fetched''"
  have t2: "trace w2 = trace w @ [HttpGet (base_url_year self),
      FileWrote h (log_line (clock w (Suc (length (trace w)))) ''Base page fetched'')]"
    using assms by (simp add: w2_def write_log_def)
  show ?thesis
  proof (cases "episode_hrefs pg")
    case (Inl e)
    then show ?thesis
      using Response t2
      by (simp add: get_books_as_dataframe_def get_page_soup_def Let_def w2_def [symmetric])
  next
    case (Inr hs)
    obtain r w3 where l: "episodes_loop self (set_iter (set_rank w2) hs) [] w2 = (r, w3)"
      by (cases "episodes_loop self (set_iter (set_rank w2) hs) [] w2")
    have "extends w2 w3"
      using extends_episodes_loop [of w2 self "set_iter (set_rank w2) hs" "[]"] l by simp
    then obtain ev where ev: "trace w3 = trace w2 @ ev" "filter is_open_close ev = []"
      by (auto simp: extends_def)
    have "snd (get_books_as_dataframe self w) = w3"
      using Response Inr l
      by (simp add: get_books_as_dataframe_def get_page_soup_def Let_def w2_def [symmetric]
          split: sum.splits)
    then show ?thesis
      using Response ev t2 by simp
  qed
qed

subsection \<open>Concrete runs\<close>

lemmas demo_defs = world0_def site_def index_2021_def index_2020_def index_2019_def episode_206_def
  episode_210_def scraper_2021_def scraper_2020_def scraper_2020_quiet_def scraper_2019_def
  scraper_2022_def

lemmas run_defs = get_books_def open_log_def close_log_def get_books_as_dataframe_def
  get_page_soup_def write_log_def emit_def scrape_episode_def pace_def set_iter_def
  is_episode_url_def is_target_url_def re_match_def ep_url_pattern_def target_url_pattern_def
  lits_def log_line_def

lemmas extract_defs = get_episode_info_def group_def py_int_def int_max_str_digits_def
  digit_char_def digits_val_def
  py_datetime_def c_int_ok_def valid_date_def days_in_month_def is_leap_def

text \<open>The constructor builds the index URL from the year.\<close>

lemma init_2021: "init 2021 (Some 2) (Some ''log.txt'') = scraper_2021"
  by code_simp

text \<open>
  The three ways out of \<open>get_books\<close>: a table (one episode fails in the transport, the
  other gives one retailer link), \<open>None\<close> (no episode link on the index page), and an
  exception (the index page cannot be fetched).
\<close>

lemma run_2021:
  "get_books scraper_2021 world0 =
     (Inr (Some [(206, ''Thinking, Fast and Slow'')]), scraper_2021,
      world0\<lparr>trace :=
        [FileOpened ''log.txt'',
         HttpGet ''https://seenunseen.in/episodes/2021/'',
         FileWrote ''log.txt'' (''[ 2021-06-01 12:00:00 ] : Base page fetched'' @ [CHR 0x0A]),
         Slept 2,
         HttpGet ''https://seenunseen.in/episodes/2021/1/4/episode-206-x/'',
         FileWrote ''log.txt''
           (''[ 2021-06-01 12:00:00 ] : Episode fetched : https://seenunseen.in/episodes/2021/1/4/episode-206-x/''
              @ [CHR 0x0A]),
         Slept 2,
         HttpGet ''https://seenunseen.in/episodes/2021/1/11/episode-207-y/'',
         FileWrote ''log.txt''
           (''[ 2021-06-01 12:00:00 ] : Failed getting URL : {url} ; Error : {exp}'' @ [CHR 0x0A]),
         FileClosed ''log.txt'']\<rparr>)"
  by (simp add: demo_defs run_defs extract_defs)

lemma run_2020:
  "get_books scraper_2020 world0 =
     (Inr None, scraper_2020,
      world0\<lparr>trace :=
        [FileOpened ''log.txt'',
         HttpGet ''https://seenunseen.in/episodes/2020/'',
         FileWrote ''log.txt'' (''[ 2021-06-01 12:00:00 ] : Base page fetched'' @ [CHR 0x0A]),
         FileClosed ''log.txt'']\<rparr>)"
  by (simp add: demo_defs run_defs)

lemma run_2022:
  "get_books scraper_2022 world0 =
     (Inl AttributeError, scraper_2022,
      world0\<lparr>trace :=
        [FileOpened ''log.txt'',
         HttpGet ''https://seenunseen.in/episodes/2022/'',
         FileWrote ''log.txt''
           (''[ 2021-06-01 12:00:00 ] : Failed getting URL : {url} ; Error : {exp}'' @ [CHR 0x0A]),
         FileWrote ''log.txt'' (''[ 2021-06-01 12:00:00 ] : Base page fetched'' @ [CHR 0x0A]),
         FileClosed ''log.txt'']\<rparr>)"
  by (simp add: demo_defs run_defs)

subsection \<open>The index page and the log\<close>

text \<open>
  C2. When the fetch of the year index page fails in the transport, \<open>get_books\<close> returns no
  result: the absent page is dereferenced and the \<open>AttributeError\<close> reaches the invoker.
\<close>
theorem get_books_index_fetch_failed:
  assumes "web w (base_url_year self) = RequestException exp"
  shows "fst (get_books self w) = Inl AttributeError"
proof -
  obtain self1 w1 where o: "open_log self w = (self1, w1)" by (cases "open_log self w")
  have "web w1 = web w" "base_url_year self1 = base_url_year self"
    using o by (auto simp: open_log_def split: option.splits if_splits)
  then have "fst (get_books_as_dataframe self1 w1) = Inl AttributeError"
    using assms by (simp add: get_books_as_dataframe_def get_page_soup_def Let_def)
  then show ?thesis
    using o by (cases "get_books_as_dataframe self1 w1"; cases "close_log self1 (snd (get_books_as_dataframe self1 w1))")
      (simp add: get_books_def)
qed

theorem get_books_index_fetch_failed_witness:
  "web world0 (base_url_year scraper_2022) = RequestException ''connection refused''
   \<and> fst (get_books scraper_2022 world0) = Inl AttributeError"
  using get_books_index_fetch_failed [of world0 scraper_2022 "''connection refused''"]
  by (simp add: world0_def scraper_2022_def site_def)


text \<open>
  Where opening and closing succeed, the events of one invocation begin with the opening
  of the log and end with its closing, and the handle field is \<open>None\<close> afterwards.
\<close>

lemma get_books_log_scope:
  assumes "log_filepath self = Some p" and "p \<noteq> []"
  shows "\<exists>body. trace (snd (snd (get_books self w))) = trace w @ FileOpened p # body @ [FileClosed p]
           \<and> filter is_open_close body = []
           \<and> log_file (fst (snd (get_books self w))) = None"
proof -
  let ?s1 = "self\<lparr>log_file := Some p\<rparr>" and ?w1 = "emit (FileOpened p) w"
  obtain r w2 where g: "get_books_as_dataframe ?s1 ?w1 = (r, w2)"
    by (cases "get_books_as_dataframe ?s1 ?w1")
  have "\<exists>ev. trace w2 = trace ?w1 @ ev \<and> filter is_open_close ev = []"
    using get_books_as_dataframe_trace [of ?s1 p ?w1] g
    by (auto split: fetch_outcome.splits)
  then obtain ev where ev: "trace w2 = trace ?w1 @ ev" "filter is_open_close ev = []" by blast
  have "get_books self w = (r, ?s1\<lparr>log_file := None\<rparr>, emit (FileClosed p) w2)"
    using assms g by (simp add: get_books_def open_log_fields close_log_def)
  then show ?thesis
    using ev by simp
qed

text \<open>
  C10. With a configured log path, the line \<open>Base page fetched\<close> is written after the
  request for the index page whether or not that request failed; when it failed, the line
  follows the failure line and precedes the \<open>AttributeError\<close>.
\<close>
theorem base_page_line_unconditional:
  assumes "log_filepath self = Some p" and "p \<noteq> []"
  shows "\<exists>pre post.
           trace (snd (snd (get_books self w))) =
             trace w @ pre @
               FileWrote p (log_line (clock w (length (trace w) + length pre)) ''Base page fetched'') # post
           \<and> last pre \<noteq> FileOpened p \<and> HttpGet (base_url_year self) \<in> set pre
           \<and> (\<forall>exp. web w (base_url_year self) = RequestException exp \<longrightarrow>
                 fst (get_books self w) = Inl AttributeError
                 \<and> pre = [FileOpened p, HttpGet (base_url_year self),
                     FileWrote p (log_line (clock w (length (trace w) + 2))
                       ''Failed getting URL : {url} ; Error : {exp}'')]
                 \<and> post = [FileClosed p])"
proof -
  let ?s1 = "self\<lparr>log_file := Some p\<rparr>" and ?w1 = "emit (FileOpened p) w"
  let ?u = "base_url_year self"
  obtain r w2 where g: "get_books_as_dataframe ?s1 ?w1 = (r, w2)"
    by (cases "get_books_as_dataframe ?s1 ?w1")
  have gb: "get_books self w = (r, ?s1\<lparr>log_file := None\<rparr>, emit (FileClosed p) w2)"
    using assms g by (simp add: get_books_def open_log_fields close_log_def)
  show ?thesis
  proof (cases "web w ?u")
    case (RequestException exp)
    have "trace w2 = trace w @ [FileOpened p, HttpGet ?u,
            FileWrote p (log_line (clock w (length (trace w) + 2)) ''Failed getting URL : {url} ; Error : {exp}''),
            FileWrote p (log_line (clock w (length (trace w) + 3)) ''Base page fetched'')]"
      and "r = Inl AttributeError"
      using get_books_as_dataframe_trace [of ?s1 p ?w1] g RequestException
      by (auto simp: eval_nat_numeral)
    then show ?thesis
      using gb RequestException
      by (intro exI [of _ "[FileOpened p, HttpGet ?u,
            FileWrote p (log_line (clock w (length (trace w) + 2)) ''Failed getting URL : {url} ; Error : {exp}'')]"]
          exI [of _ "[FileClosed p]"]) (simp add: eval_nat_numeral)
  next
    case (Response st pg)
    obtain post where "trace w2 = trace w @ [FileOpened p, HttpGet ?u,
            FileWrote p (log_line (clock w (length (trace w) + 2)) ''Base page fetched'')] @ post"
      using get_books_as_dataframe_trace [of ?s1 p ?w1] g Response
      by (auto simp: eval_nat_numeral)
    then show ?thesis
      using gb Response
      by (intro exI [of _ "[FileOpened p, HttpGet ?u]"] exI [of _ "post @ [FileClosed p]"]) simp
  qed
qed

theorem base_page_line_unconditional_witness:
  "log_filepath scraper_2022 = Some ''log.txt'' \<and> ''log.txt'' \<noteq> []
   \<and> web world0 (base_url_year scraper_2022) = RequestException ''connection refused''
   \<and> (\<exists>pre post.
         trace (snd (snd (get_books scraper_2022 world0))) =
           trace world0 @ pre @
             FileWrote ''log.txt''
               (log_line (clock world0 (length (trace world0) + length pre)) ''Base page fetched'') # post
         \<and> fst (get_books scraper_2022 world0) = Inl AttributeError
         \<and> pre = [FileOpened ''log.txt'', HttpGet (base_url_year scraper_2022),
                  FileWrote ''log.txt''
                    (log_line (clock world0 (length (trace world0) + 2))
                       ''Failed getting URL : {url} ; Error : {exp}'')]
         \<and> post = [FileClosed ''log.txt''])"
proof -
  have h: "log_filepath scraper_2022 = Some ''log.txt''" "''log.txt'' \<noteq> []"
    and f: "web world0 (base_url_year scraper_2022) = RequestException ''connection refused''"
    by (simp_all add: scraper_2022_def world0_def site_def)
  from base_page_line_unconditional [OF h, of world0] f h show ?thesis
    by blast
qed

subsection \<open>The fetcher\<close>

lemma get_page_soup_failed:
  "web w url = RequestException exp \<Longrightarrow>
     get_page_soup self w url =
       (None, write_log self (emit (HttpGet url) w) ''Failed getting URL : {url} ; Error : {exp}'')"
  by (simp add: get_page_soup_def)

lemma get_page_soup_response:
  "web w url = Response status body \<Longrightarrow> get_page_soup self w url = (Some body, emit (HttpGet url) w)"
  by (simp add: get_page_soup_def)

text \<open>
  C4. At a URL whose fetch fails in the transport, with the log open, the fetcher returns
  \<open>None\<close> and writes one line, but the line holds the text \<open>{url}\<close> and \<open>{exp}\<close> as
  written in the source, not the URL and not the error. A response with status 404 is
  parsed and returned.
\<close>

theorem failure_line_lacks_url:
  "get_page_soup (scraper_2022\<lparr>log_file := Some ''log.txt''\<rparr>) world0 ''https://seenunseen.in/episodes/2022/'' =
     (None, world0\<lparr>trace :=
        [HttpGet ''https://seenunseen.in/episodes/2022/'',
         FileWrote ''log.txt''
           (''[ 2021-06-01 12:00:00 ] : Failed getting URL : {url} ; Error : {exp}'' @ [CHR 0x0A])]\<rparr>)
   \<and> web world0 ''https://seenunseen.in/episodes/2022/'' = RequestException ''connection refused''
   \<and> \<not> contains ''https://seenunseen.in/episodes/2022/''
         (''[ 2021-06-01 12:00:00 ] : Failed getting URL : {url} ; Error : {exp}'' @ [CHR 0x0A])
   \<and> \<not> contains ''connection refused''
         (''[ 2021-06-01 12:00:00 ] : Failed getting URL : {url} ; Error : {exp}'' @ [CHR 0x0A])
   \<and> get_page_soup (scraper_2022\<lparr>log_file := Some ''log.txt''\<rparr>) world0 ''https://seenunseen.in/episodes/2018/'' =
       (Some [], world0\<lparr>trace := [HttpGet ''https://seenunseen.in/episodes/2018/'']\<rparr>)"
  by (simp add: demo_defs run_defs)

subsection \<open>Classifier and extractor agree\<close>

text \<open>
  C7. The extractor returns \<open>None\<close> exactly when the classifier returns false: both apply
  the same pattern by \<open>re.match\<close>, and after a match the extractor returns a pair or raises.
\<close>
theorem extract_absent_iff_not_episode:
  "get_episode_info url = Inr None \<longleftrightarrow> \<not> is_episode_url url"
  by (simp add: get_episode_info_def is_episode_url_def split: option.splits sum.splits)

theorem extract_absent_iff_not_episode_witness:
  "(get_episode_info ''https://seenunseen.in/about'' = Inr None
      \<longleftrightarrow> \<not> is_episode_url ''https://seenunseen.in/about'')
   \<and> \<not> is_episode_url ''https://seenunseen.in/about''
   \<and> (get_episode_info ''https://seenunseen.in/episodes/2021/1/4/episode-206-x/'' = Inr None
      \<longleftrightarrow> \<not> is_episode_url ''https://seenunseen.in/episodes/2021/1/4/episode-206-x/'')
   \<and> is_episode_url ''https://seenunseen.in/episodes/2021/1/4/episode-206-x/''"
  using extract_absent_iff_not_episode [of "''https://seenunseen.in/about''"]
    extract_absent_iff_not_episode [of "''https://seenunseen.in/episodes/2021/1/4/episode-206-x/''"]
  by (simp add: is_episode_url_def re_match_def ep_url_pattern_def lits_def)

subsection \<open>Anchors without an href\<close>

lemma episode_hrefs_missing:
  "a \<in> set pg \<Longrightarrow> href a = None \<Longrightarrow> episode_hrefs pg = Inl KeyError"
  by (induction pg) (auto simp: href_def split: option.splits sum.splits)

lemma episode_hrefs_Inr:
  "episode_hrefs pg = Inr hs \<Longrightarrow>
     (\<forall>a\<in>set pg. href a \<noteq> None) \<and> set hs = {u. \<exists>a\<in>set pg. href a = Some u \<and> is_episode_url u}"
proof (induction pg arbitrary: hs)
  case Nil
  then show ?case by simp
next
  case (Cons a pg)
  then show ?case
    by (auto simp: href_def split: option.splits sum.splits if_splits)
qed

lemma amazon_books_missing:
  "a \<in> set pg \<Longrightarrow> href a = None \<Longrightarrow> isl (amazon_books pg)"
  by (induction pg) (auto simp: href_def split: option.splits sum.splits list.splits)

lemma pace_web: "pace self w = Inr w1 \<Longrightarrow> web w1 = web w"
  by (auto simp: pace_def split: option.splits if_splits)

lemma scrape_episode_web: "web (snd (scrape_episode self u w)) = web w"
  using extends_scrape_episode [of w self u] by (simp add: extends_def)

lemma scrape_episode_raises:
  assumes "web w u = Response st pg" and "isl (amazon_books pg)"
  shows "isl (fst (scrape_episode self u w))"
proof (cases "pace self w")
  case (Inl e)
  then show ?thesis by (simp add: scrape_episode_def)
next
  case (Inr w1)
  then have "web w1 u = Response st pg" using assms(1) pace_web by metis
  then show ?thesis
    using Inr assms(2)
    by (auto simp: scrape_episode_def get_page_soup_response Let_def isl_def split: sum.splits)
qed

lemma episodes_loop_raises:
  assumes "u \<in> set us" and "web w u = Response st pg" and "isl (amazon_books pg)"
  shows "isl (fst (episodes_loop self us df w))"
  using assms
proof (induction us arbitrary: df w)
  case Nil
  then show ?case by simp
next
  case (Cons v us)
  obtain r w' where s: "scrape_episode self v w = (r, w')" by (cases "scrape_episode self v w")
  have w': "web w' = web w" using scrape_episode_web [of self v w] s by simp
  show ?case
  proof (cases "u = v")
    case True
    then have "isl r" using scrape_episode_raises [OF Cons.prems(2,3), of self] s by simp
    then show ?thesis using s by (auto simp: isl_def)
  next
    case False
    then have "u \<in> set us" using Cons.prems(1) by simp
    then have "isl (fst (episodes_loop self us df' w'))" for df'
      using Cons.IH [of w' df'] Cons.prems(2,3) w' by simp
    then show ?thesis using s by (auto split: sum.splits option.splits)
  qed
qed

lemma set_set_iter: "set (set_iter rank hs) = set hs"
  by (simp add: set_iter_def)

lemma distinct_set_iter: "distinct (set_iter rank hs)"
  by (simp add: set_iter_def)


lemma get_books_result:
  "\<exists>self1 w1. fst (get_books self w) = fst (get_books_as_dataframe self1 w1)
     \<and> web w1 = web w \<and> set_rank w1 = set_rank w
     \<and> base_url_year self1 = base_url_year self \<and> req_delay_second self1 = req_delay_second self"
proof -
  obtain self1 w1 where o: "open_log self w = (self1, w1)" by (cases "open_log self w")
  have "web w1 = web w" "set_rank w1 = set_rank w" "base_url_year self1 = base_url_year self"
    "req_delay_second self1 = req_delay_second self"
    using o by (auto simp: open_log_def split: option.splits if_splits)
  moreover have "fst (get_books self w) = fst (get_books_as_dataframe self1 w1)"
    using o by (cases "get_books_as_dataframe self1 w1";
        cases "close_log self1 (snd (get_books_as_dataframe self1 w1))") (simp add: get_books_def)
  ultimately show ?thesis by blast
qed

lemma dataframe_failed:
  "web w (base_url_year self) = RequestException exp \<Longrightarrow>
     fst (get_books_as_dataframe self w) = Inl AttributeError"
  by (simp add: get_books_as_dataframe_def get_page_soup_def Let_def)

lemma dataframe_bad_index:
  "web w (base_url_year self) = Response st pg \<Longrightarrow> episode_hrefs pg = Inl e \<Longrightarrow>
     fst (get_books_as_dataframe self w) = Inl e"
  by (simp add: get_books_as_dataframe_def get_page_soup_def Let_def)

lemma dataframe_loop:
  assumes "web w (base_url_year self) = Response st pg" and "episode_hrefs pg = Inr hs"
  shows "\<exists>w2. web w2 = web w \<and>
           fst (get_books_as_dataframe self w) =
             (case fst (episodes_loop self (set_iter (set_rank w) hs) [] w2) of
                Inl e \<Rightarrow> Inl e
              | Inr df_list \<Rightarrow> if df_list = [] then Inr None else Inr (Some (concat df_list)))"
proof -
  let ?w2 = "write_log self (emit (HttpGet (base_url_year self)) w) ''Base page fetched''"
  have e: "extends w ?w2"
    by (rule extends_trans [OF extends_emit extends_write_log]) simp
  then have v: "web ?w2 = web w" and k: "set_rank ?w2 = set_rank w"
    by (simp_all add: extends_def)
  have "fst (get_books_as_dataframe self w) =
             (case fst (episodes_loop self (set_iter (set_rank ?w2) hs) [] ?w2) of
                Inl e \<Rightarrow> Inl e
              | Inr df_list \<Rightarrow> if df_list = [] then Inr None else Inr (Some (concat df_list)))"
    using assms
    by (cases "episodes_loop self (set_iter (set_rank ?w2) hs) [] ?w2")
      (simp add: get_books_as_dataframe_def get_page_soup_def Let_def split: sum.splits)
  then have "fst (get_books_as_dataframe self w) =
             (case fst (episodes_loop self (set_iter (set_rank w) hs) [] ?w2) of
                Inl e \<Rightarrow> Inl e
              | Inr df_list \<Rightarrow> if df_list = [] then Inr None else Inr (Some (concat df_list)))"
    by (simp only: k)
  with v show ?thesis by (intro exI [of _ ?w2] conjI)
qed

text \<open>
  C9. An anchor without \<open>href\<close> on a fetched index page makes \<open>get_books\<close> raise
  \<open>KeyError\<close>; and whenever \<open>get_books\<close> returns a value, every anchor of the index page and
  of every fetched episode page carries an \<open>href\<close>.
\<close>
theorem missing_href_raises:
  "(web w (base_url_year self) = Response st pg \<and> (\<exists>a\<in>set pg. href a = None)
      \<longrightarrow> fst (get_books self w) = Inl KeyError)
   \<and> (fst (get_books self w) = Inr r \<longrightarrow>
        (\<exists>st' idx. web w (base_url_year self) = Response st' idx
           \<and> (\<forall>a\<in>set idx. href a \<noteq> None)
           \<and> (\<forall>a\<in>set idx. is_episode_anchor a \<longrightarrow>
                 (\<forall>u st'' ep. href a = Some u \<and> web w u = Response st'' ep
                    \<longrightarrow> (\<forall>b\<in>set ep. href b \<noteq> None)))))"
proof -
  obtain self1 w1 where g: "fst (get_books self w) = fst (get_books_as_dataframe self1 w1)"
    and w1: "web w1 = web w" and b1: "base_url_year self1 = base_url_year self"
    using get_books_result by blast
  have first: "fst (get_books self w) = Inl KeyError"
    if "web w (base_url_year self) = Response st pg" and "\<exists>a\<in>set pg. href a = None"
  proof -
    from that(2) have "episode_hrefs pg = Inl KeyError"
      using episode_hrefs_missing by blast
    then show ?thesis
      using dataframe_bad_index [of w1 self1 st pg KeyError] that(1) g w1 b1 by simp
  qed
  have second: "\<exists>st' idx. web w (base_url_year self) = Response st' idx
           \<and> (\<forall>a\<in>set idx. href a \<noteq> None)
           \<and> (\<forall>a\<in>set idx. is_episode_anchor a \<longrightarrow>
                 (\<forall>u st'' ep. href a = Some u \<and> web w u = Response st'' ep
                    \<longrightarrow> (\<forall>b\<in>set ep. href b \<noteq> None)))"
    if r: "fst (get_books self w) = Inr r"
  proof (cases "web w (base_url_year self)")
    case (RequestException exp)
    then show ?thesis
      using dataframe_failed [of w1 self1 exp] g w1 b1 r by simp
  next
    case (Response st' idx)
    show ?thesis
    proof (cases "episode_hrefs idx")
      case (Inl e)
      then show ?thesis
        using dataframe_bad_index [of w1 self1 st' idx e] Response g w1 b1 r by simp
    next
      case (Inr hs)
      have hs: "\<forall>a\<in>set idx. href a \<noteq> None"
        "set hs = {u. \<exists>a\<in>set idx. href a = Some u \<and> is_episode_url u}"
        using episode_hrefs_Inr [OF Inr] by simp_all
      obtain w2 where w2: "web w2 = web w"
        and res: "fst (get_books_as_dataframe self1 w1) =
             (case fst (episodes_loop self1 (set_iter (set_rank w1) hs) [] w2) of
                Inl e \<Rightarrow> Inl e
              | Inr df_list \<Rightarrow> if df_list = [] then Inr None else Inr (Some (concat df_list)))"
        using dataframe_loop [of w1 self1 st' idx hs] Response Inr w1 b1 by auto
      have noraise: "\<not> isl (fst (episodes_loop self1 (set_iter (set_rank w1) hs) [] w2))"
        using res g r by (auto simp: isl_def)
      have "\<forall>b\<in>set ep. href b \<noteq> None"
        if "a \<in> set idx" "is_episode_anchor a" "href a = Some u" "web w u = Response st'' ep"
        for a u st'' ep
      proof (rule ccontr)
        assume "\<not> (\<forall>b\<in>set ep. href b \<noteq> None)"
        then have "isl (amazon_books ep)" using amazon_books_missing by blast
        moreover have "u \<in> set (set_iter (set_rank w1) hs)"
          using that hs(2) by (auto simp: set_set_iter is_episode_anchor_def)
        ultimately show False
          using episodes_loop_raises [of u _ w2 st'' ep self1 "[]"] that(4) w2 noraise by simp
      qed
      then show ?thesis
        using Response hs(1) by blast
    qed
  qed
  show ?thesis using first second by blast
qed

theorem missing_href_raises_witness:
  "web world0 (base_url_year scraper_2019) = Response 200 index_2019
   \<and> (\<exists>a\<in>set index_2019. href a = None)
   \<and> fst (get_books scraper_2019 world0) = Inl KeyError"
proof -
  have h: "web world0 (base_url_year scraper_2019) = Response 200 index_2019"
    "\<exists>a\<in>set index_2019. href a = None"
    by (simp_all add: world0_def scraper_2019_def site_def index_2019_def href_def)
  from missing_href_raises [of world0 scraper_2019 200 index_2019] h show ?thesis
    by blast
qed

subsection \<open>Episodes that give no rows\<close>



lemma get_page_soup_None:
  "get_page_soup self w u = (None, w2) \<Longrightarrow> \<exists>exp. web w u = RequestException exp"
  by (auto simp: get_page_soup_def split: fetch_outcome.splits)

lemma get_page_soup_Some:
  "get_page_soup self w u = (Some pg, w2) \<Longrightarrow> \<exists>st. web w u = Response st pg"
  by (auto simp: get_page_soup_def split: fetch_outcome.splits)

lemma scrape_episode_rows:
  assumes "scrape_episode self u w = (Inr (Some rows), w')"
  shows "\<exists>st pg n d bs. web w u = Response st pg \<and> amazon_books pg = Inr bs \<and> bs \<noteq> []
           \<and> get_episode_info u = Inr (Some (n, d)) \<and> rows = map (\<lambda>t. (n, t)) bs"
proof (cases "pace self w")
  case (Inl e)
  then show ?thesis using assms by (simp add: scrape_episode_def)
next
  case (Inr w1)
  obtain p w2 where g: "get_page_soup self w1 u = (p, w2)" by (cases "get_page_soup self w1 u")
  show ?thesis
  proof (cases p)
    case None
    then show ?thesis using assms Inr g by (simp add: scrape_episode_def)
  next
    case (Some pg)
    obtain st where "web w1 u = Response st pg"
      using get_page_soup_Some g Some by blast
    then have "web w u = Response st pg" using pace_web [OF Inr] by simp
    then show ?thesis
      using assms Inr g Some
      by (auto simp: scrape_episode_def Let_def split: sum.splits list.splits option.splits if_splits)
  qed
qed

lemma scrape_episode_skip:
  assumes "scrape_episode self u w = (Inr None, w')"
  shows "no_rows w u"
proof (cases "pace self w")
  case (Inl e)
  then show ?thesis using assms by (simp add: scrape_episode_def)
next
  case (Inr w1)
  obtain p w2 where g: "get_page_soup self w1 u = (p, w2)" by (cases "get_page_soup self w1 u")
  show ?thesis
  proof (cases p)
    case None
    then obtain exp where "web w1 u = RequestException exp"
      using get_page_soup_None g by blast
    then show ?thesis using pace_web [OF Inr] by (simp add: no_rows_def)
  next
    case (Some pg)
    obtain st where "web w1 u = Response st pg"
      using get_page_soup_Some g Some by blast
    then have "web w u = Response st pg" using pace_web [OF Inr] by simp
    then show ?thesis
      using assms Inr g Some
      by (auto simp: scrape_episode_def Let_def no_rows_def
          split: sum.splits list.splits option.splits if_splits)
  qed
qed

lemma no_rows_web: "web w' = web w \<Longrightarrow> no_rows w' u = no_rows w u"
  by (simp add: no_rows_def)

lemma episodes_loop_empty:
  "fst (episodes_loop self us df w) = Inr dfs \<Longrightarrow>
     (dfs = [] \<longleftrightarrow> df = [] \<and> (\<forall>u\<in>set us. no_rows w u))"
proof (induction us arbitrary: df w)
  case Nil
  then show ?case by simp
next
  case (Cons v us)
  obtain r w' where s: "scrape_episode self v w = (r, w')" by (cases "scrape_episode self v w")
  have w': "web w' = web w" using scrape_episode_web [of self v w] s by simp
  show ?case
  proof (cases r)
    case (Inl e)
    then show ?thesis using Cons.prems s by simp
  next
    case (Inr o1)
    show ?thesis
    proof (cases o1)
      case None
      then have "fst (episodes_loop self us df w') = Inr dfs"
        using Cons.prems s Inr by simp
      then have "dfs = [] \<longleftrightarrow> df = [] \<and> (\<forall>u\<in>set us. no_rows w' u)"
        by (rule Cons.IH)
      moreover have "no_rows w v" using scrape_episode_skip s Inr None by blast
      ultimately show ?thesis using no_rows_web [OF w'] by simp
    next
      case (Some rows)
      then have "fst (episodes_loop self us (df @ [rows]) w') = Inr dfs"
        using Cons.prems s Inr by simp
      then have "dfs = [] \<longleftrightarrow> df @ [rows] = [] \<and> (\<forall>u\<in>set us. no_rows w' u)"
        by (rule Cons.IH)
      then have "dfs \<noteq> []" by simp
      moreover have "\<not> no_rows w v"
        using scrape_episode_rows [of self v w rows w'] s Inr Some
        by (auto simp: no_rows_def)
      ultimately show ?thesis by simp
    qed
  qed
qed

lemma episode_hrefs_none:
  "\<forall>a\<in>set pg. href a \<noteq> None \<and> \<not> is_episode_anchor a \<Longrightarrow> episode_hrefs pg = Inr []"
  by (induction pg) (auto simp: href_def is_episode_anchor_def split: option.splits)





subsection \<open>The absent result\<close>

text \<open>
  C5. With the index page fetched: whenever \<open>get_books\<close> returns a value, the value is
  \<open>None\<close> exactly when no episode linked from the index page produced a row. When every
  anchor of the index page carries an \<open>href\<close> and none matches the episode template, the
  result is \<open>None\<close>, and with a configured log the invocation writes the one line
  \<open>Base page fetched\<close> and no other line.
\<close>
theorem absent_iff_no_rows:
  "(web w (base_url_year self) = Response st pg \<and> fst (get_books self w) = Inr r \<longrightarrow>
      (r = None \<longleftrightarrow>
         (\<forall>a\<in>set pg. is_episode_anchor a \<longrightarrow> (\<forall>u. href a = Some u \<longrightarrow> no_rows w u))))
   \<and> (web w (base_url_year self) = Response st pg
        \<and> (\<forall>a\<in>set pg. href a \<noteq> None) \<and> (\<forall>a\<in>set pg. \<not> is_episode_anchor a) \<longrightarrow>
      fst (get_books self w) = Inr None
      \<and> (\<forall>p. log_filepath self = Some p \<and> p \<noteq> [] \<longrightarrow>
            trace (snd (snd (get_books self w))) =
              trace w @ [FileOpened p, HttpGet (base_url_year self),
                FileWrote p (log_line (clock w (length (trace w) + 2)) ''Base page fetched''),
                FileClosed p]))"
proof (intro conjI impI)
  assume a: "web w (base_url_year self) = Response st pg \<and> fst (get_books self w) = Inr r"
  obtain self1 w1 where g: "fst (get_books self w) = fst (get_books_as_dataframe self1 w1)"
    and w1: "web w1 = web w" and b1: "base_url_year self1 = base_url_year self"
    using get_books_result by blast
  show "r = None \<longleftrightarrow>
         (\<forall>a\<in>set pg. is_episode_anchor a \<longrightarrow> (\<forall>u. href a = Some u \<longrightarrow> no_rows w u))"
  proof (cases "episode_hrefs pg")
    case (Inl e)
    then show ?thesis
      using dataframe_bad_index [of w1 self1 st pg e] a g w1 b1 by simp
  next
    case (Inr hs)
    have hs: "set hs = {u. \<exists>a\<in>set pg. href a = Some u \<and> is_episode_url u}"
      using episode_hrefs_Inr [OF Inr] by simp
    obtain w2 where w2: "web w2 = web w"
      and res: "fst (get_books_as_dataframe self1 w1) =
             (case fst (episodes_loop self1 (set_iter (set_rank w1) hs) [] w2) of
                Inl e \<Rightarrow> Inl e
              | Inr df_list \<Rightarrow> if df_list = [] then Inr None else Inr (Some (concat df_list)))"
      using dataframe_loop [of w1 self1 st pg hs] a Inr w1 b1 by auto
    obtain dfs where d: "fst (episodes_loop self1 (set_iter (set_rank w1) hs) [] w2) = Inr dfs"
      using res g a by (cases "fst (episodes_loop self1 (set_iter (set_rank w1) hs) [] w2)") auto
    have "dfs = [] \<longleftrightarrow> (\<forall>u\<in>set hs. no_rows w2 u)"
      using episodes_loop_empty [OF d] by (simp add: set_set_iter)
    moreover have "r = None \<longleftrightarrow> dfs = []"
      using res d g a by (auto split: if_splits)
    moreover have "no_rows w2 u = no_rows w u" for u
      using no_rows_web [OF w2] .
    ultimately have "r = None \<longleftrightarrow> (\<forall>u\<in>set hs. no_rows w u)" by simp
    then show ?thesis
      unfolding hs by (auto simp: is_episode_anchor_def split: option.splits)
  qed
next
  assume a: "web w (base_url_year self) = Response st pg
        \<and> (\<forall>a\<in>set pg. href a \<noteq> None) \<and> (\<forall>a\<in>set pg. \<not> is_episode_anchor a)"
  then have e: "episode_hrefs pg = Inr []" using episode_hrefs_none [of pg] by blast
  have d: "get_books_as_dataframe s1 x =
      (Inr None, write_log s1 (emit (HttpGet (base_url_year s1)) x) ''Base page fetched'')"
    if "web x (base_url_year s1) = Response st pg" for s1 x
    using that e
    by (simp add: get_books_as_dataframe_def get_page_soup_def Let_def set_iter_def)
  obtain self1 w1 where o: "open_log self w = (self1, w1)" by (cases "open_log self w")
  have f: "web w1 = web w" "base_url_year self1 = base_url_year self"
    using o by (auto simp: open_log_def split: option.splits if_splits)
  show "fst (get_books self w) = Inr None"
    using o d [of w1 self1] f a
    by (cases "close_log self1 (write_log self1 (emit (HttpGet (base_url_year self1)) w1) ''Base page fetched'')")
      (simp add: get_books_def)
  show "\<forall>p. log_filepath self = Some p \<and> p \<noteq> [] \<longrightarrow>
            trace (snd (snd (get_books self w))) =
              trace w @ [FileOpened p, HttpGet (base_url_year self),
                FileWrote p (log_line (clock w (length (trace w) + 2)) ''Base page fetched''),
                FileClosed p]"
  proof (intro allI impI)
    fix p assume p: "log_filepath self = Some p \<and> p \<noteq> []"
    have "web (emit (FileOpened p) w) (base_url_year (self\<lparr>log_file := Some p\<rparr>)) = Response st pg"
      using a by simp
    from d [OF this] p show "trace (snd (snd (get_books self w))) =
              trace w @ [FileOpened p, HttpGet (base_url_year self),
                FileWrote p (log_line (clock w (length (trace w) + 2)) ''Base page fetched''),
                FileClosed p]"
      by (simp add: get_books_def open_log_fields close_log_def write_log_def eval_nat_numeral)
  qed
qed

text \<open>
  As the claim is worded it fails twice: an index page whose only anchor has no \<open>href\<close>
  matches no episode, yet \<open>get_books\<close> raises \<open>KeyError\<close>; and with no log configured the
  invocation returns \<open>None\<close> and writes no line at all.
\<close>

theorem absent_iff_no_rows_counterexample:
  "web world0 (base_url_year scraper_2019) = Response 200 index_2019
   \<and> filter is_episode_anchor index_2019 = []
   \<and> fst (get_books scraper_2019 world0) = Inl KeyError
   \<and> web world0 (base_url_year scraper_2020_quiet) = Response 200 index_2020
   \<and> filter is_episode_anchor index_2020 = []
   \<and> get_books scraper_2020_quiet world0 =
       (Inr None, scraper_2020_quiet, world0\<lparr>trace := [HttpGet ''https://seenunseen.in/episodes/2020/'']\<rparr>)"
  by (simp add: demo_defs run_defs is_episode_anchor_def href_def)

theorem absent_iff_no_rows_witness:
  "web world0 (base_url_year scraper_2021) = Response 200 index_2021
   \<and> fst (get_books scraper_2021 world0) = Inr (Some [(206, ''Thinking, Fast and Slow'')])
   \<and> (Some [(206::int, ''Thinking, Fast and Slow'')] = None \<longleftrightarrow>
        (\<forall>a\<in>set index_2021. is_episode_anchor a \<longrightarrow> (\<forall>u. href a = Some u \<longrightarrow> no_rows world0 u)))
   \<and> web world0 (base_url_year scraper_2020) = Response 200 index_2020
   \<and> list_all (\<lambda>a. href a \<noteq> None \<and> \<not> is_episode_anchor a) index_2020
   \<and> log_filepath scraper_2020 = Some ''log.txt''
   \<and> fst (get_books scraper_2020 world0) = Inr None
   \<and> trace (snd (snd (get_books scraper_2020 world0))) =
       trace world0 @ [FileOpened ''log.txt'', HttpGet (base_url_year scraper_2020),
         FileWrote ''log.txt'' (log_line (clock world0 (length (trace world0) + 2)) ''Base page fetched''),
         FileClosed ''log.txt'']"
proof -
  have a: "web world0 (base_url_year scraper_2021) = Response 200 index_2021"
    by (simp add: demo_defs)
  have b: "fst (get_books scraper_2021 world0) = Inr (Some [(206, ''Thinking, Fast and Slow'')])"
    by (simp add: run_2021)
  have c: "web world0 (base_url_year scraper_2020) = Response 200 index_2020"
    by (simp add: demo_defs)
  have d: "\<forall>a\<in>set index_2020. href a \<noteq> None" "\<forall>a\<in>set index_2020. \<not> is_episode_anchor a"
    by (simp_all add: demo_defs run_defs href_def is_episode_anchor_def)
  have e: "log_filepath scraper_2020 = Some ''log.txt''" "''log.txt'' \<noteq> []"
    by (simp_all add: scraper_2020_def)
  from absent_iff_no_rows [of world0 scraper_2021 200 index_2021 "Some [(206, ''Thinking, Fast and Slow'')]"]
    absent_iff_no_rows [of world0 scraper_2020 200 index_2020]
    a b c d e
  show ?thesis unfolding list_all_iff by blast
qed

subsection \<open>The pattern engine on runs and literals\<close>

lemma starts_with_append: "starts_with l (l @ s)"
  by (induction l) auto



lemma rmatch_lits:
  "rmatch (lits l @ r) s pos opn sp =
     (if starts_with l s then rmatch r (drop (length l) s) (pos + length l) opn sp else None)"
proof (induction l arbitrary: s pos)
  case Nil
  then show ?case by (simp add: lits_def)
next
  case (Cons x l)
  have step: "rmatch (lits l @ r) s pos opn sp =
     (if starts_with l s then rmatch r (drop (length l) s) (pos + length l) opn sp else None)" for s pos
    using Cons.IH .
  show ?case
  proof (cases s)
    case Nil
    then show ?thesis by (simp add: lits_def)
  next
    case (Cons c cs)
    then show ?thesis
      using step [of cs "Suc pos"] by (simp add: lits_def)
  qed
qed

lemma rmatch_star_blocked:
  assumes "\<And>c cs pos opn sp. atom_ok a c \<Longrightarrow> rmatch r (c # cs) pos opn sp = None"
  shows "rmatch (Star a # r) s pos opn sp =
           rmatch r (dropWhile (atom_ok a) s) (pos + length (takeWhile (atom_ok a) s)) opn sp"
proof (induction s arbitrary: pos)
  case Nil
  then show ?case by simp
next
  case (Cons c cs)
  show ?case
  proof (cases "atom_ok a c")
    case True
    have "rmatch r (c # cs) pos opn sp = None" using assms True by simp
    then show ?thesis
      using True Cons.IH [of "Suc pos"] by (simp split: option.splits)
  next
    case False
    then show ?thesis by simp
  qed
qed

lemma rmatch_plus_blocked:
  assumes "\<And>c cs pos opn sp. atom_ok a c \<Longrightarrow> rmatch r (c # cs) pos opn sp = None"
  shows "rmatch (Plus a # r) s pos opn sp =
           (if s \<noteq> [] \<and> atom_ok a (hd s)
            then rmatch r (dropWhile (atom_ok a) s) (pos + length (takeWhile (atom_ok a) s)) opn sp
            else None)"
proof (cases s)
  case Nil
  then show ?thesis by simp
next
  case (Cons c cs)
  show ?thesis
    using rmatch_star_blocked [where a = a and r = r and s = cs and pos = "Suc pos", OF assms] Cons
    by simp
qed

lemma rmatch_opt_blocked:
  assumes "\<And>c cs pos opn sp. atom_ok a c \<Longrightarrow> rmatch r (c # cs) pos opn sp = None"
  shows "rmatch (Opt a # r) s pos opn sp =
           (if s \<noteq> [] \<and> atom_ok a (hd s) then rmatch r (tl s) (Suc pos) opn sp
            else rmatch r s pos opn sp)"
proof (cases s)
  case Nil
  then show ?thesis by simp
next
  case (Cons c cs)
  show ?thesis
  proof (cases "atom_ok a c")
    case True
    have "rmatch r (c # cs) pos opn sp = None" using assms True by simp
    then show ?thesis using True Cons by (simp split: option.splits)
  next
    case False
    then show ?thesis using Cons by simp
  qed
qed

lemma rmatch_star_end:
  "rmatch [Star a] s pos opn sp = Some (pos + length (takeWhile (atom_ok a) s), sp)"
  by (induction s arbitrary: pos) auto

lemma rmatch_plus_end:
  "rmatch [Plus a] s pos opn sp =
     (if s \<noteq> [] \<and> atom_ok a (hd s) then Some (pos + length (takeWhile (atom_ok a) s), sp) else None)"
  by (cases s) (auto simp: rmatch_star_end)

lemma range_az: "atom_ok (Range CHR ''a'' CHR ''z'') c = lower_char c"
  by (simp add: lower_char_def)

lemma range_09: "atom_ok (Range CHR ''0'' CHR ''9'') c = digit_char c"
  by (simp add: digit_char_def)

subsection \<open>The retailer pattern\<close>
















subsection \<open>The episode pattern and its groups\<close>

lemma run_takeWhile:
  "list_all P ys \<Longrightarrow> \<not> P d \<Longrightarrow> takeWhile P (ys @ d # rest) = ys"
  by (induction ys) auto

lemma run_dropWhile:
  "list_all P ys \<Longrightarrow> \<not> P d \<Longrightarrow> dropWhile P (ys @ d # rest) = d # rest"
  by (induction ys) auto

lemma plus_group_run:
  assumes "ys \<noteq> []" and "list_all (atom_ok a) ys" and "\<not> atom_ok a d" and "map_of opn k = Some b"
  shows "rmatch (Plus a # GClose k # One (Chr d) # r) (ys @ d # rest) pos opn sp =
           rmatch r rest (Suc (pos + length ys)) opn ((k, b, pos + length ys) # sp)"
proof -
  have blocked: "rmatch (GClose k # One (Chr d) # r) (c # cs) pos opn sp = None"
    if "atom_ok a c" for c cs pos opn sp
    using that assms(3) by (auto split: option.splits)
  have hd: "ys @ d # rest \<noteq> [] \<and> atom_ok a (hd (ys @ d # rest))"
    using assms(1,2) by (cases ys) auto
  have "rmatch (Plus a # GClose k # One (Chr d) # r) (ys @ d # rest) pos opn sp =
      (if ys @ d # rest \<noteq> [] \<and> atom_ok a (hd (ys @ d # rest))
       then rmatch (GClose k # One (Chr d) # r) (dropWhile (atom_ok a) (ys @ d # rest))
              (pos + length (takeWhile (atom_ok a) (ys @ d # rest))) opn sp
       else None)"
    by (rule rmatch_plus_blocked [OF blocked])
  also have "\<dots> = rmatch (GClose k # One (Chr d) # r) (d # rest) (pos + length ys) opn sp"
    by (simp only: hd run_takeWhile [OF assms(2,3)] run_dropWhile [OF assms(2,3)] if_True simp_thms)
  also have "\<dots> = rmatch r rest (Suc (pos + length ys)) opn ((k, b, pos + length ys) # sp)"
    using assms(4) by simp
  finally show ?thesis .
qed

lemma digits_run: "is_digits s \<Longrightarrow> s \<noteq> [] \<and> list_all (atom_ok (Range CHR ''0'' CHR ''9'')) s"
  by (simp add: is_digits_def list_all_iff digit_char_def)

lemma ep_tail_match:
  assumes "is_digits Y" "is_digits M" "is_digits D" "is_digits N"
    and "slug \<noteq> []" "hd slug \<noteq> CHR 0x0A"
  shows "\<exists>e. rmatch ep_tail (Y @ ''/'' @ M @ ''/'' @ D @ ''/episode-'' @ N @ ''-'' @ slug) p [] [] =
           Some (e, [(4, p + length Y + length M + length D + 11, p + length Y + length M + length D + 11 + length N),
                     (3, p + length Y + length M + 2, p + length Y + length M + 2 + length D),
                     (2, p + length Y + 1, p + length Y + 1 + length M),
                     (1, p, p + length Y)])"
proof -
  let ?dig = "Range CHR ''0'' CHR ''9''"
  note y = digits_run [OF assms(1)] and m = digits_run [OF assms(2)]
    and d = digits_run [OF assms(3)] and n = digits_run [OF assms(4)]
  have sep: "\<not> atom_ok ?dig CHR ''/''" "\<not> atom_ok ?dig CHR ''-''" by simp_all
  define r4 where "r4 = [Plus Dot]"
  define r3 where "r3 = lits ''episode-'' @ GOpen 4 # Plus ?dig # GClose 4 # One (Chr CHR ''-'') # r4"
  define r2 where "r2 = GOpen 3 # Plus ?dig # GClose 3 # One (Chr CHR ''/'') # r3"
  define r1 where "r1 = GOpen 2 # Plus ?dig # GClose 2 # One (Chr CHR ''/'') # r2"
  have pat: "ep_tail = GOpen 1 # Plus ?dig # GClose 1 # One (Chr CHR ''/'') # r1"
    by (simp add: ep_tail_def r1_def r2_def r3_def r4_def lits_def)
  define s4 where "s4 = N @ CHR ''-'' # slug"
  define s3 where "s3 = D @ CHR ''/'' # (''episode-'' @ s4)"
  define s2 where "s2 = M @ CHR ''/'' # s3"
  have subj: "Y @ ''/'' @ M @ ''/'' @ D @ ''/episode-'' @ N @ ''-'' @ slug = Y @ CHR ''/'' # s2"
    by (simp add: s2_def s3_def s4_def)
  have e4: "rmatch r4 slug q opn sp = Some (q + length (takeWhile (atom_ok Dot) slug), sp)" for q opn sp
    using assms(5,6) by (simp add: r4_def rmatch_plus_end)
  have e3: "rmatch r3 (''episode-'' @ s4) q opn sp =
      rmatch r4 slug (Suc (q + 8 + length N)) ((4, q + 8) # opn) ((4, q + 8, q + 8 + length N) # sp)"
    for q opn sp
    unfolding r3_def rmatch_lits s4_def
    using plus_group_run [where a = ?dig and ys = N and d = "CHR ''-''" and k = 4 and b = "q + 8"
        and opn = "(4, q + 8) # opn" and r = r4 and rest = slug and pos = "q + 8" and sp = sp] n sep
    by (simp add: starts_with_append eval_nat_numeral)
  have e2: "rmatch r2 s3 q opn sp =
      rmatch r3 (''episode-'' @ s4) (Suc (q + length D)) ((3, q) # opn) ((3, q, q + length D) # sp)"
    for q opn sp
    unfolding r2_def s3_def
    using plus_group_run [where a = ?dig and ys = D and d = "CHR ''/''" and k = 3 and b = q
        and opn = "(3, q) # opn" and r = r3 and rest = "''episode-'' @ s4" and pos = q and sp = sp] d sep
    by simp
  have e1: "rmatch r1 s2 q opn sp =
      rmatch r2 s3 (Suc (q + length M)) ((2, q) # opn) ((2, q, q + length M) # sp)"
    for q opn sp
    unfolding r1_def s2_def
    using plus_group_run [where a = ?dig and ys = M and d = "CHR ''/''" and k = 2 and b = q
        and opn = "(2, q) # opn" and r = r2 and rest = s3 and pos = q and sp = sp] m sep
    by simp
  have e0: "rmatch ep_tail (Y @ CHR ''/'' # s2) q opn sp =
      rmatch r1 s2 (Suc (q + length Y)) ((1, q) # opn) ((1, q, q + length Y) # sp)"
    for q opn sp
    unfolding pat
    using plus_group_run [where a = ?dig and ys = Y and d = "CHR ''/''" and k = 1 and b = q
        and opn = "(1, q) # opn" and r = r1 and rest = s2 and pos = q and sp = sp] y sep
    by simp
  show ?thesis
    unfolding subj e0 e1 e2 e3 e4 by (simp add: add.commute add.left_commute)
qed


lemma ep_pattern_split:
  "ep_url_pattern =
     lits ''http'' @ Opt (Chr CHR ''s'') # lits ''://seenunseen'' @ One Dot # lits ''in/episodes/'' @ ep_tail"
  by (simp add: ep_url_pattern_def ep_tail_def)

lemma ep_prefix:
  assumes "sch = [] \<or> sch = ''s''" and "c \<noteq> CHR 0x0A"
  shows "rmatch ep_url_pattern (''http'' @ sch @ ''://seenunseen'' @ [c] @ ''in/episodes/'' @ rest) 0 [] [] =
           rmatch ep_tail rest (30 + length sch) [] []"
proof -
  define r2 where "r2 = lits ''in/episodes/'' @ ep_tail"
  define r1 where "r1 = lits ''://seenunseen'' @ One Dot # r2"
  have b: "rmatch r1 (x # xs) pos opn sp = None" if "atom_ok (Chr CHR ''s'') x" for x xs pos opn sp
    using that by (auto simp: r1_def lits_def)
  have o: "rmatch (Opt (Chr CHR ''s'') # r1) s pos [] [] =
        (if s \<noteq> [] \<and> atom_ok (Chr CHR ''s'') (hd s) then rmatch r1 (tl s) (Suc pos) [] []
         else rmatch r1 s pos [] [])" for s pos
    by (rule rmatch_opt_blocked [OF b])
  have t2: "rmatch r2 (''in/episodes/'' @ rest) q [] [] = rmatch ep_tail rest (q + 12) [] []" for q
    unfolding r2_def rmatch_lits by (simp add: starts_with_append eval_nat_numeral)
  have t1: "rmatch r1 (''://seenunseen'' @ c # ''in/episodes/'' @ rest) q [] [] =
      rmatch ep_tail rest (q + 26) [] []" for q
    unfolding r1_def rmatch_lits using assms(2) t2 [of "q + 14"]
    by (simp add: starts_with_append eval_nat_numeral)
  have p: "ep_url_pattern = lits ''http'' @ Opt (Chr CHR ''s'') # r1"
    by (simp add: ep_pattern_split r1_def r2_def)
  from assms(1) show ?thesis
  proof
    assume s: "sch = []"
    have "rmatch ep_url_pattern (''http'' @ ''://seenunseen'' @ c # ''in/episodes/'' @ rest) 0 [] [] =
        rmatch ep_tail rest 30 [] []"
      unfolding p rmatch_lits o using t1 [of 4] by (simp add: starts_with_append eval_nat_numeral)
    then show ?thesis by (simp add: s)
  next
    assume s: "sch = ''s''"
    have "rmatch ep_url_pattern (''http'' @ CHR ''s'' # ''://seenunseen'' @ c # ''in/episodes/'' @ rest) 0 [] [] =
        rmatch ep_tail rest 31 [] []"
      unfolding p rmatch_lits o using t1 [of 5] by (simp add: starts_with_append eval_nat_numeral)
    then show ?thesis by (simp add: s)
  qed
qed

lemma slice:
  "b = length p \<Longrightarrow> e = b + length y \<Longrightarrow> take (e - b) (drop b (p @ y @ r)) = y"
  by simp

lemma py_int_digits:
  "is_digits s \<Longrightarrow> py_int s = (if 4300 < length s then Inl ValueError else Inr (digits_val s))"
  by (simp add: py_int_def is_digits_def int_max_str_digits_def)

lemma valid_date_c_int:
  "valid_date y m d \<Longrightarrow> c_int_ok y \<and> c_int_ok m \<and> c_int_ok d"
  by (auto simp: valid_date_def c_int_ok_def days_in_month_def split: if_splits)

lemma ep_groups:
  assumes "sch = [] \<or> sch = ''s''" and "c \<noteq> CHR 0x0A"
    and "is_digits Y" "is_digits M" "is_digits D" "is_digits N"
    and "slug \<noteq> []" "hd slug \<noteq> CHR 0x0A"
    and "url = ''http'' @ sch @ ''://seenunseen'' @ [c] @ ''in/episodes/'' @
                 Y @ ''/'' @ M @ ''/'' @ D @ ''/episode-'' @ N @ ''-'' @ slug"
  shows "\<exists>m. re_match ep_url_pattern url = Some m
           \<and> group m 1 = Y \<and> group m 2 = M \<and> group m 3 = D \<and> group m 4 = N"
proof -
  define P where "P = ''http'' @ sch @ ''://seenunseen'' @ [c] @ ''in/episodes/''"
  define p where "p = 30 + length sch"
  have lp: "length P = p" by (simp add: P_def p_def)
  obtain e where e: "rmatch ep_tail (Y @ ''/'' @ M @ ''/'' @ D @ ''/episode-'' @ N @ ''-'' @ slug) p [] [] =
           Some (e, [(4, p + length Y + length M + length D + 11, p + length Y + length M + length D + 11 + length N),
                     (3, p + length Y + length M + 2, p + length Y + length M + 2 + length D),
                     (2, p + length Y + 1, p + length Y + 1 + length M),
                     (1, p, p + length Y)])"
    using ep_tail_match [OF assms(3-8)] by blast
  define m where "m = \<lparr>subject = url,
      group_spans = [(4, p + length Y + length M + length D + 11, p + length Y + length M + length D + 11 + length N),
                     (3, p + length Y + length M + 2, p + length Y + length M + 2 + length D),
                     (2, p + length Y + 1, p + length Y + 1 + length M),
                     (1::nat, p, p + length Y)]\<rparr>"
  have "rmatch ep_url_pattern url 0 [] [] =
      rmatch ep_tail (Y @ ''/'' @ M @ ''/'' @ D @ ''/episode-'' @ N @ ''-'' @ slug) p [] []"
    unfolding assms(9) p_def by (rule ep_prefix [OF assms(1,2)])
  then have rm: "re_match ep_url_pattern url = Some m"
    using e by (simp add: re_match_def m_def)
  have g1: "group m 1 = Y"
  proof -
    have "url = P @ Y @ (''/'' @ M @ ''/'' @ D @ ''/episode-'' @ N @ ''-'' @ slug)"
      by (simp add: assms(9) P_def)
    then show ?thesis
      using slice [of p P "p + length Y" Y] lp by (simp add: group_def m_def)
  qed
  have g2: "group m 2 = M"
  proof -
    have "url = (P @ Y @ ''/'') @ M @ (''/'' @ D @ ''/episode-'' @ N @ ''-'' @ slug)"
      by (simp add: assms(9) P_def)
    then show ?thesis
      using slice [of "p + length Y + 1" "P @ Y @ ''/''" "p + length Y + 1 + length M" M] lp
      by (simp add: group_def m_def)
  qed
  have g3: "group m 3 = D"
  proof -
    have "url = (P @ Y @ ''/'' @ M @ ''/'') @ D @ (''/episode-'' @ N @ ''-'' @ slug)"
      by (simp add: assms(9) P_def)
    then show ?thesis
      using slice [of "p + length Y + length M + 2" "P @ Y @ ''/'' @ M @ ''/''"
          "p + length Y + length M + 2 + length D" D] lp
      by (simp add: group_def m_def)
  qed
  have g4: "group m 4 = N"
  proof -
    have "url = (P @ Y @ ''/'' @ M @ ''/'' @ D @ ''/episode-'') @ N @ (''-'' @ slug)"
      by (simp add: assms(9) P_def)
    then show ?thesis
      using slice [of "p + length Y + length M + length D + 11" "P @ Y @ ''/'' @ M @ ''/'' @ D @ ''/episode-''"
          "p + length Y + length M + length D + 11 + length N" N] lp
      by (simp add: group_def m_def)
  qed
  show ?thesis using rm g1 g2 g3 g4 by blast
qed

lemma replicate_digits: "0 < n \<Longrightarrow> is_digits (replicate n CHR ''1'')"
  by (simp add: is_digits_def list_all_iff digit_char_def)

text \<open>
  The extractor on a URL of the template, in the order in which the source evaluates:
  the three conversions of the date, the date constructor, the conversion of the number.
\<close>

lemma get_episode_info_template:
  assumes "sch = [] \<or> sch = ''s''" and "c \<noteq> CHR 0x0A"
    and "is_digits Y" and "is_digits M" and "is_digits D" and "is_digits N"
    and "slug \<noteq> []" and "hd slug \<noteq> CHR 0x0A"
  shows "get_episode_info (''http'' @ sch @ ''://seenunseen'' @ [c] @ ''in/episodes/'' @
                 Y @ ''/'' @ M @ ''/'' @ D @ ''/episode-'' @ N @ ''-'' @ slug) =
           (if 4300 < length Y \<or> 4300 < length M \<or> 4300 < length D then Inl ValueError
            else if \<not> (c_int_ok (digits_val Y) \<and> c_int_ok (digits_val M) \<and> c_int_ok (digits_val D))
            then Inl OverflowError
            else if \<not> valid_date (digits_val Y) (digits_val M) (digits_val D) then Inl ValueError
            else if 4300 < length N then Inl ValueError
            else Inr (Some (digits_val N,
                   \<lparr>year = digits_val Y, month = digits_val M, day = digits_val D\<rparr>)))"
proof -
  define url where "url = ''http'' @ sch @ ''://seenunseen'' @ [c] @ ''in/episodes/'' @
                 Y @ ''/'' @ M @ ''/'' @ D @ ''/episode-'' @ N @ ''-'' @ slug"
  obtain m where m: "re_match ep_url_pattern url = Some m"
    "group m 1 = Y" "group m 2 = M" "group m 3 = D" "group m 4 = N"
    using ep_groups [OF assms url_def] by blast
  have "get_episode_info url =
           (if 4300 < length Y \<or> 4300 < length M \<or> 4300 < length D then Inl ValueError
            else if \<not> (c_int_ok (digits_val Y) \<and> c_int_ok (digits_val M) \<and> c_int_ok (digits_val D))
            then Inl OverflowError
            else if \<not> valid_date (digits_val Y) (digits_val M) (digits_val D) then Inl ValueError
            else if 4300 < length N then Inl ValueError
            else Inr (Some (digits_val N,
                   \<lparr>year = digits_val Y, month = digits_val M, day = digits_val D\<rparr>)))"
    by (simp add: get_episode_info_def m py_int_digits assms(3-6) py_datetime_def del: One_nat_def)
  then show ?thesis unfolding url_def .
qed

text \<open>
  C3. A URL built on the episode template from a scheme, the site, digit strings \<open>Y\<close>, \<open>M\<close>,
  \<open>D\<close>, \<open>N\<close> and a slug that does not begin with a line break: when each digit string has at
  most 4300 digits and \<open>(Y, M, D)\<close> is a date of the calendar, the extractor returns the
  number read from \<open>N\<close> and the date built from \<open>Y\<close>, \<open>M\<close>, \<open>D\<close> in that order; otherwise a
  conversion or the date constructor raises.
\<close>

theorem extract_episode_info:
  assumes "sch = [] \<or> sch = ''s''" and "c \<noteq> CHR 0x0A"
    and "is_digits Y" and "is_digits M" and "is_digits D" and "is_digits N"
    and "slug \<noteq> []" and "hd slug \<noteq> CHR 0x0A"
  shows "get_episode_info (''http'' @ sch @ ''://seenunseen'' @ [c] @ ''in/episodes/'' @
                 Y @ ''/'' @ M @ ''/'' @ D @ ''/episode-'' @ N @ ''-'' @ slug) =
           (if length Y \<le> 4300 \<and> length M \<le> 4300 \<and> length D \<le> 4300 \<and> length N \<le> 4300
               \<and> valid_date (digits_val Y) (digits_val M) (digits_val D)
            then Inr (Some (digits_val N,
                   \<lparr>year = digits_val Y, month = digits_val M, day = digits_val D\<rparr>))
            else if 4300 < length Y \<or> 4300 < length M \<or> 4300 < length D then Inl ValueError
            else if \<not> (c_int_ok (digits_val Y) \<and> c_int_ok (digits_val M) \<and> c_int_ok (digits_val D))
            then Inl OverflowError
            else Inl ValueError)"
  unfolding get_episode_info_template [OF assms]
  using valid_date_c_int [of "digits_val Y" "digits_val M" "digits_val D"]
  by (auto simp: not_less)

text \<open>
  A URL of the template with month 13, and one with an episode number of 4301 digits: the
  extractor raises instead of returning a pair.
\<close>

theorem extract_episode_info_counterexample:
  "is_episode_url ''https://seenunseen.in/episodes/2021/13/01/episode-5-x''
   \<and> get_episode_info ''https://seenunseen.in/episodes/2021/13/01/episode-5-x'' = Inl ValueError
   \<and> get_episode_info (''https://seenunseen.in/episodes/2021/1/4/episode-''
         @ replicate 4301 CHR ''1'' @ ''-x'') = Inl ValueError"
proof -
  have a: "is_episode_url ''https://seenunseen.in/episodes/2021/13/01/episode-5-x''"
    "get_episode_info ''https://seenunseen.in/episodes/2021/13/01/episode-5-x'' = Inl ValueError"
    by (simp_all add: is_episode_url_def re_match_def ep_url_pattern_def lits_def extract_defs)
  have d: "is_digits ''2021''" "is_digits ''1''" "is_digits ''4''"
    by (simp_all add: is_digits_def digit_char_def)
  have v: "digits_val ''2021'' = 2021" "digits_val ''1'' = 1" "digits_val ''4'' = 4"
    by (simp_all add: digits_val_def)
  have k: "valid_date 2021 1 4" "c_int_ok 2021" "c_int_ok 1" "c_int_ok 4"
    by (simp_all add: valid_date_def days_in_month_def c_int_ok_def)
  have n: "is_digits (replicate 4301 CHR ''1'')"
    by (rule replicate_digits) simp
  have "get_episode_info (''http'' @ ''s'' @ ''://seenunseen'' @ [CHR ''.''] @ ''in/episodes/'' @
      ''2021'' @ ''/'' @ ''1'' @ ''/'' @ ''4'' @ ''/episode-'' @ replicate 4301 CHR ''1'' @ ''-'' @ ''x'')
      = Inl ValueError"
    by (subst get_episode_info_template [OF _ _ d n]) (simp_all add: v k)
  then have "get_episode_info (''https://seenunseen.in/episodes/2021/1/4/episode-''
         @ replicate 4301 CHR ''1'' @ ''-x'') = Inl ValueError"
    by simp
  with a show ?thesis by simp
qed

theorem extract_episode_info_witness:
  "is_digits ''2021'' \<and> is_digits ''1'' \<and> is_digits ''4'' \<and> is_digits ''206''
   \<and> digits_val ''2021'' = 2021 \<and> digits_val ''206'' = 206
   \<and> valid_date 2021 1 4
   \<and> get_episode_info ''https://seenunseen.in/episodes/2021/1/4/episode-206-x/'' =
       Inr (Some (206, \<lparr>year = 2021, month = 1, day = 4\<rparr>))"
proof -
  have d: "is_digits ''2021''" "is_digits ''1''" "is_digits ''4''" "is_digits ''206''"
    by (simp_all add: is_digits_def digit_char_def)
  have v: "digits_val ''2021'' = 2021" "digits_val ''1'' = 1" "digits_val ''4'' = 4"
    "digits_val ''206'' = 206"
    by (simp_all add: digits_val_def)
  have k: "valid_date 2021 1 4"
    by (simp add: valid_date_def days_in_month_def)
  from extract_episode_info [of "''s''" "CHR ''.''" "''2021''" "''1''" "''4''" "''206''" "''x/''"] d v k
  show ?thesis by simp
qed

subsection \<open>The index URL\<close>

text \<open>Whatever the year, the index URL that the constructor builds is no episode URL.\<close>

lemma str_nat_digits: "is_digits (str_nat n)"
proof (induction n rule: str_nat.induct)
  case (1 n)
  show ?case
  proof (cases "n < 10")
    case True
    then have "(48 + n) mod 256 = 48 + n" by simp
    then show ?thesis
      using True by (subst str_nat.simps) (simp add: is_digits_def digit_char_def)
  next
    case False
    have "n mod 10 < 10" by simp
    then have "(48 + n mod 10) mod 256 = 48 + n mod 10" by simp
    then show ?thesis
      using False "1.IH"
      by (subst str_nat.simps) (simp add: is_digits_def digit_char_def)
  qed
qed

lemma index_never_episode: "\<not> is_episode_url (base_url_year (init yr delay path))"
proof -
  let ?dig = "Range CHR ''0'' CHR ''9''"
  define r where "r = lits ''/'' @
     [GOpen 3, Plus ?dig, GClose 3] @ lits ''/episode-'' @
     [GOpen 4, Plus ?dig, GClose 4] @ lits ''-'' @ [Plus Dot]"
  have pat: "ep_tail = GOpen 1 # Plus ?dig # GClose 1 # One (Chr CHR ''/'') # GOpen 2 # Plus ?dig # GClose 2 # r"
    by (simp add: ep_tail_def r_def lits_def)
  have u: "base_url_year (init yr delay path) =
      ''http'' @ ''s'' @ ''://seenunseen'' @ [CHR ''.''] @ ''in/episodes/'' @ (py_str yr @ ''/'')"
    by (simp add: init_def base_url_def)
  have "rmatch ep_url_pattern (base_url_year (init yr delay path)) 0 [] [] =
      rmatch ep_tail (py_str yr @ ''/'') (30 + length ''s'') [] []"
    unfolding u by (rule ep_prefix) simp_all
  also have "\<dots> = None"
  proof (cases "yr < 0")
    case True
    then show ?thesis by (simp add: py_str_def pat)
  next
    case False
    have d: "str_nat (nat yr) \<noteq> []" "list_all (atom_ok ?dig) (str_nat (nat yr))"
      using digits_run [OF str_nat_digits] by simp_all
    have "rmatch (Plus ?dig # GClose 1 # One (Chr CHR ''/'') # GOpen 2 # Plus ?dig # GClose 2 # r)
        (str_nat (nat yr) @ CHR ''/'' # []) q ((1, q) # []) [] = None" for q
      using d by (subst plus_group_run [where b = q]) simp_all
    then show ?thesis
      using False by (simp add: py_str_def pat del: str_nat.simps)
  qed
  finally show ?thesis
    by (simp add: is_episode_url_def re_match_def)
qed

subsection \<open>The log file on any file system\<close>

lemma py_open_configured:
  "log_filepath self = Some p \<Longrightarrow> p \<noteq> [] \<Longrightarrow>
     py_open fs self w =
       (if can_open fs p then Inr (self\<lparr>log_file := Some p\<rparr>, emit (FileOpened p) w) else Inl OSError)"
  by (simp add: py_open_def)

lemma py_open_none:
  "log_filepath self = None \<or> log_filepath self = Some [] \<Longrightarrow>
     py_open fs self w = Inr (self\<lparr>log_file := None\<rparr>, w)"
  by (auto simp: py_open_def)

text \<open>Where no file operation fails, the two models of \<open>get_books\<close> agree.\<close>

lemma get_books_fs_no_log:
  assumes "log_filepath self = None \<or> log_filepath self = Some []"
  shows "get_books_fs fs self w = get_books self w"
proof -
  have o: "open_log self w = (self\<lparr>log_file := None\<rparr>, w)"
    using assms by (auto simp: open_log_def)
  show ?thesis
    by (cases "get_books_as_dataframe (self\<lparr>log_file := None\<rparr>) w")
      (simp add: get_books_fs_def get_books_def py_open_none [OF assms] o close_log_def)
qed

lemma get_books_fs_ok:
  assumes "log_filepath self = Some p" and "p \<noteq> []" and "can_open fs p" and "can_close fs p"
  shows "get_books_fs fs self w = get_books self w"
  using assms
  by (cases "get_books_as_dataframe (self\<lparr>log_file := Some p\<rparr>) (emit (FileOpened p) w)")
    (simp add: get_books_fs_def get_books_def py_open_configured open_log_fields close_log_def)

lemma get_books_fs_unopenable:
  assumes "log_filepath self = Some p" and "p \<noteq> []" and "\<not> can_open fs p"
  shows "get_books_fs fs self w = (Inl OSError, self, w)"
  using assms by (simp add: get_books_fs_def py_open_configured)

lemma get_books_fs_opened:
  assumes "log_filepath self = Some p" and "p \<noteq> []" and "can_open fs p"
    and "get_books_as_dataframe (self\<lparr>log_file := Some p\<rparr>) (emit (FileOpened p) w) = (r, w2)"
  shows "get_books_fs fs self w =
           (if can_close fs p then (r, self\<lparr>log_file := None\<rparr>, emit (FileClosed p) w2)
            else (Inl OSError, self\<lparr>log_file := Some p\<rparr>, emit (FileClosed p) w2))"
  using assms by (simp add: get_books_fs_def py_open_configured)

text \<open>
  An invocation that returns a value has met no failing file operation, so what is proved
  of \<open>get_books\<close> holds of \<open>get_books_fs\<close> whenever it returns a value, and whenever the log
  can be opened and closed.
\<close>

lemma get_books_fs_returns:
  assumes "fst (get_books_fs fs self w) = Inr r"
  shows "get_books_fs fs self w = get_books self w"
proof (cases "log_filepath self = None \<or> log_filepath self = Some []")
  case True
  then show ?thesis by (rule get_books_fs_no_log)
next
  case False
  then obtain p where p: "log_filepath self = Some p" "p \<noteq> []" by auto
  have o: "can_open fs p"
    using assms get_books_fs_unopenable [OF p, of fs w] by (cases "can_open fs p") simp_all
  obtain r' w2 where g: "get_books_as_dataframe (self\<lparr>log_file := Some p\<rparr>) (emit (FileOpened p) w) = (r', w2)"
    by (cases "get_books_as_dataframe (self\<lparr>log_file := Some p\<rparr>) (emit (FileOpened p) w)")
  have "can_close fs p"
    using assms get_books_fs_opened [OF p o g] by (cases "can_close fs p") simp_all
  with p o show ?thesis by (simp add: get_books_fs_ok)
qed

text \<open>
  C8. With a configured log path that can be opened, the events of one invocation of
  \<open>get_books\<close> begin with the opening of the log and end with its closing, with no other
  opening or closing between them, whatever the outcome of the scrape (a table, \<open>None\<close> or an
  exception). When the closing succeeds the handle field is \<open>None\<close> afterwards and the outcome
  of the scrape is passed on; when the closing raises, its error is the outcome and the
  handle field keeps the handle. When the path cannot be opened, the error of \<open>open\<close> is the
  outcome, nothing is opened or closed and the scraper is unchanged.
\<close>

theorem get_books_fs_log_scope:
  assumes "log_filepath self = Some p" and "p \<noteq> []"
  shows "(can_open fs p \<longrightarrow>
            (\<exists>body. trace (snd (snd (get_books_fs fs self w))) =
                      trace w @ FileOpened p # body @ [FileClosed p]
                    \<and> filter is_open_close body = [])
            \<and> (can_close fs p \<longrightarrow>
                  log_file (fst (snd (get_books_fs fs self w))) = None
                  \<and> fst (get_books_fs fs self w) =
                      fst (get_books_as_dataframe (self\<lparr>log_file := Some p\<rparr>) (emit (FileOpened p) w)))
            \<and> (\<not> can_close fs p \<longrightarrow>
                  log_file (fst (snd (get_books_fs fs self w))) = Some p
                  \<and> fst (get_books_fs fs self w) = Inl OSError))
         \<and> (\<not> can_open fs p \<longrightarrow> get_books_fs fs self w = (Inl OSError, self, w))"
proof (intro conjI impI)
  assume "\<not> can_open fs p"
  then show "get_books_fs fs self w = (Inl OSError, self, w)"
    using get_books_fs_unopenable [OF assms] by simp
next
  let ?s1 = "self\<lparr>log_file := Some p\<rparr>" and ?w1 = "emit (FileOpened p) w"
  assume o: "can_open fs p"
  obtain r w2 where g: "get_books_as_dataframe ?s1 ?w1 = (r, w2)"
    by (cases "get_books_as_dataframe ?s1 ?w1")
  note f = get_books_fs_opened [OF assms o g]
  have "\<exists>ev. trace w2 = trace ?w1 @ ev \<and> filter is_open_close ev = []"
    using get_books_as_dataframe_trace [of ?s1 p ?w1] g
    by (auto split: fetch_outcome.splits)
  then obtain ev where ev: "trace w2 = trace ?w1 @ ev" "filter is_open_close ev = []" by blast
  show "\<exists>body. trace (snd (snd (get_books_fs fs self w))) =
                      trace w @ FileOpened p # body @ [FileClosed p]
                    \<and> filter is_open_close body = []"
    using f ev by (intro exI [of _ ev]) simp
  {
    assume "can_close fs p"
    then show "log_file (fst (snd (get_books_fs fs self w))) = None"
      and "fst (get_books_fs fs self w) = fst (get_books_as_dataframe ?s1 ?w1)"
      using f g by simp_all
  }
  {
    assume "\<not> can_close fs p"
    then show "log_file (fst (snd (get_books_fs fs self w))) = Some p"
      and "fst (get_books_fs fs self w) = Inl OSError"
      using f by simp_all
  }
qed

lemmas fs_defs = fs0_def scraper_2020_root_def scraper_2020_full_def get_books_fs_def py_open_def

text \<open>
  As the claim is worded it fails on a path that cannot be opened (nothing is opened) and
  on a log whose closing raises (the handle field is not reset).
\<close>

theorem get_books_fs_log_scope_counterexample:
  "log_filepath scraper_2020_root = Some ''/''
   \<and> get_books_fs fs0 scraper_2020_root world0 = (Inl OSError, scraper_2020_root, world0)
   \<and> log_filepath scraper_2020_full = Some ''/dev/full''
   \<and> fst (get_books_fs fs0 scraper_2020_full world0) = Inl OSError
   \<and> log_file (fst (snd (get_books_fs fs0 scraper_2020_full world0))) = Some ''/dev/full''"
  by (simp add: fs_defs demo_defs run_defs)

theorem get_books_fs_log_scope_witness:
  "log_filepath scraper_2021 = Some ''log.txt'' \<and> can_open fs0 ''log.txt'' \<and> can_close fs0 ''log.txt''
   \<and> (\<exists>body. trace (snd (snd (get_books_fs fs0 scraper_2021 world0))) =
                trace world0 @ FileOpened ''log.txt'' # body @ [FileClosed ''log.txt'']
              \<and> filter is_open_close body = [])
   \<and> log_file (fst (snd (get_books_fs fs0 scraper_2021 world0))) = None
   \<and> fst (get_books_fs fs0 scraper_2021 world0) = Inr (Some [(206, ''Thinking, Fast and Slow'')])
   \<and> log_filepath scraper_2020_full = Some ''/dev/full''
   \<and> can_open fs0 ''/dev/full'' \<and> \<not> can_close fs0 ''/dev/full''
   \<and> (\<exists>body. trace (snd (snd (get_books_fs fs0 scraper_2020_full world0))) =
                trace world0 @ FileOpened ''/dev/full'' # body @ [FileClosed ''/dev/full'']
              \<and> filter is_open_close body = [])
   \<and> log_file (fst (snd (get_books_fs fs0 scraper_2020_full world0))) = Some ''/dev/full''
   \<and> fst (get_books_fs fs0 scraper_2020_full world0) = Inl OSError
   \<and> log_filepath scraper_2020_root = Some ''/'' \<and> \<not> can_open fs0 ''/''
   \<and> get_books_fs fs0 scraper_2020_root world0 = (Inl OSError, scraper_2020_root, world0)"
proof -
  have a: "log_filepath scraper_2021 = Some ''log.txt''" "''log.txt'' \<noteq> []"
    "can_open fs0 ''log.txt''" "can_close fs0 ''log.txt''"
    by (simp_all add: scraper_2021_def fs0_def)
  have b: "log_filepath scraper_2020_full = Some ''/dev/full''" "''/dev/full'' \<noteq> []"
    "can_open fs0 ''/dev/full''" "\<not> can_close fs0 ''/dev/full''"
    by (simp_all add: scraper_2020_full_def fs0_def)
  have c: "log_filepath scraper_2020_root = Some ''/''" "''/'' \<noteq> []" "\<not> can_open fs0 ''/''"
    by (simp_all add: scraper_2020_root_def fs0_def)
  have r: "fst (get_books_as_dataframe (scraper_2021\<lparr>log_file := Some ''log.txt''\<rparr>)
              (emit (FileOpened ''log.txt'') world0)) = Inr (Some [(206, ''Thinking, Fast and Slow'')])"
    by (simp add: demo_defs run_defs extract_defs)
  note A = get_books_fs_log_scope [OF a(1,2), of fs0 world0]
  note B = get_books_fs_log_scope [OF b(1,2), of fs0 world0]
  note C = get_books_fs_log_scope [OF c(1,2), of fs0 world0]
  show ?thesis
    using A B C a b c r by simp
qed

text \<open>On any file system, a failed fetch of the index page ends in an exception.\<close>

lemma get_books_fs_index_fetch_failed:
  assumes "web w (base_url_year self) = RequestException exp"
  shows "isl (fst (get_books_fs fs self w))"
proof (cases "py_open fs self w")
  case (Inl e)
  then show ?thesis by (simp add: get_books_fs_def)
next
  case (Inr sw)
  obtain self1 w1 where sw: "sw = (self1, w1)" by (cases sw)
  have "web w1 = web w" "base_url_year self1 = base_url_year self"
    using Inr sw by (auto simp: py_open_def split: option.splits if_splits)
  then have "fst (get_books_as_dataframe self1 w1) = Inl AttributeError"
    using dataframe_failed [of w1 self1 exp] assms by simp
  then show ?thesis
    using Inr sw
    by (cases "get_books_as_dataframe self1 w1") (simp add: get_books_fs_def split: option.splits)
qed

end
